theory Spec2Isabelle
  imports Complex_Main
begin

section \<open>Canvas content\<close>

text \<open>
  The move selector of \<^verbatim>\<open>movedElementsSelector.ts\<close> walks a model of canvas
  contents. Every element has an id, a parent (the object it is contained in, absent
  for the root) and a class. The classes the selector distinguishes with
  \<^verbatim>\<open>instanceof\<close> are the constructors of \<open>kind\<close>; every other class of the
  model (root, canvas, plain layout elements) is \<open>SOther\<close>. JavaScript numbers are
  modelled as exact reals, and by the rounding to doubles where the rounding of the
  arithmetic decides a property (\<open>createProjectionResult_double\<close>).
\<close>

type_synonym element_id = string

datatype error = InvalidElement | TypeError

datatype segment =
    SCanvasSegment (segment_end: element_id)
  | SCanvasBezierSegment (segment_end: element_id)
      (startControlPoint: element_id) (endControlPoint: element_id)

datatype edit_type = MOVE_X | MOVE_Y | OTHER_EDIT

datatype line_point_pos = Pos real | SegmentPos real real

datatype kind =
    SCanvasElement (elementPos: "element_id option")
  | SAbsolutePoint
  | SRelativePoint (target: element_id) (edits: "edit_type list")
  | SLinePoint (lineProvider: element_id) (linePos: line_point_pos)
  | SCanvasConnection (start: element_id) (segments: "segment list")
  | SMarker (markerPos: string) (posId: element_id)
  | SOther

datatype selement = SElement (ident: element_id) (parent: "selement option") (kind: kind)

text \<open>A JavaScript reference that may be \<^verbatim>\<open>undefined\<close> (\<open>None\<close>).\<close>

type_synonym elem = "selement option"

text \<open>
  The model index (sprotty's \<^verbatim>\<open>ModelIndexImpl\<close>): lookup by id and the list of all
  elements. \<^verbatim>\<open>LinePoint.calcSegmentIndex\<close> belongs to the package
  \<^verbatim>\<open>diagram-common\<close> and is carried as a parameter next to the index.
\<close>

record index =
  getById :: "element_id \<rightharpoonup> selement"
  allElements :: "selement list"
  calcSegmentIndex :: "line_point_pos \<Rightarrow> nat \<Rightarrow> int"

text \<open>The fields of the class \<^verbatim>\<open>MovedElementsSelector\<close>. Sets keep insertion order.\<close>

record selector =
  movedElements :: "elem list"
  implicitlyMovedElements :: "elem list"
  hasConflict :: bool
  isMovedLookup :: "element_id \<rightharpoonup> bool"

text \<open>
  A computation either runs out of fuel (\<open>None\<close>: the recursion of the source does not
  return), throws (\<open>Some (Inl e)\<close>) or returns (\<open>Some (Inr v)\<close>).
\<close>

type_synonym 'a res = "(error + 'a) option"

definition andThen :: "'a res \<Rightarrow> ('a \<Rightarrow> 'b res) \<Rightarrow> 'b res" where
  "andThen m f = (case m of None \<Rightarrow> None | Some (Inl e) \<Rightarrow> Some (Inl e) | Some (Inr a) \<Rightarrow> f a)"

definition returns :: "'a \<Rightarrow> 'a res" where
  "returns a = Some (Inr a)"

definition throws :: "error \<Rightarrow> 'a res" where
  "throws e = Some (Inl e)"

definition setAdd :: "'a \<Rightarrow> 'a list \<Rightarrow> 'a list" where
  "setAdd x xs = (if x \<in> set xs then xs else xs @ [x])"

definition newSet :: "'a list \<Rightarrow> 'a list" where
  "newSet xs = fold setAdd xs []"

text \<open>\<^verbatim>\<open>xs[i]\<close> and \<^verbatim>\<open>xs.at(-1)\<close>: \<^verbatim>\<open>undefined\<close> out of range.\<close>

definition at_index :: "'a list \<Rightarrow> int \<Rightarrow> 'a option" where
  "at_index xs i = (if 0 \<le> i \<and> i < int (length xs) then Some (xs ! nat i) else None)"

definition at_last :: "'a list \<Rightarrow> 'a option" where
  "at_last xs = (if xs = [] then None else Some (last xs))"

definition isCanvasElement :: "selement \<Rightarrow> bool" where
  "isCanvasElement e = (case kind e of SCanvasElement p \<Rightarrow> True | _ \<Rightarrow> False)"

definition isCanvasPoint :: "selement \<Rightarrow> bool" where
  "isCanvasPoint e = (case kind e of SAbsolutePoint \<Rightarrow> True | SRelativePoint t ed \<Rightarrow> True
     | SLinePoint l p \<Rightarrow> True | _ \<Rightarrow> False)"

definition isCanvasConnection :: "selement \<Rightarrow> bool" where
  "isCanvasConnection e = (case kind e of SCanvasConnection st sg \<Rightarrow> True | _ \<Rightarrow> False)"

definition isMarker :: "selement \<Rightarrow> bool" where
  "isMarker e = (case kind e of SMarker p i \<Rightarrow> True | _ \<Rightarrow> False)"

text \<open>sprotty's \<^verbatim>\<open>findParentByFeature\<close>: the element itself is tested first.\<close>

fun findParentByFeature :: "(selement \<Rightarrow> bool) \<Rightarrow> selement \<Rightarrow> selement option" where
  "findParentByFeature p (SElement i par k) =
     (if p (SElement i par k) then Some (SElement i par k)
      else (case par of None \<Rightarrow> None | Some q \<Rightarrow> findParentByFeature p q))"

section \<open>The move selector\<close>

text \<open>
  The methods \<^verbatim>\<open>isMoved\<close>, \<^verbatim>\<open>isElementMoved\<close>, \<^verbatim>\<open>isElementImplicitlyMoved\<close>,
  \<^verbatim>\<open>isCanvasConnectionSegmentMoved\<close> and \<^verbatim>\<open>isParentCanvasImplicitlyMoved\<close> call each
  other. Each method below takes \<^verbatim>\<open>this.isMoved\<close> as its first argument; \<open>isMoved\<close>
  closes the recursion with fuel.
\<close>

type_synonym is_moved = "element_id \<Rightarrow> bool \<Rightarrow> selector \<Rightarrow> (bool \<times> selector) res"

fun mapIsMoved :: "is_moved \<Rightarrow> bool \<Rightarrow> element_id list \<Rightarrow> selector \<Rightarrow> (bool list \<times> selector) res" where
  "mapIsMoved this_isMoved consistencyChecks [] s = returns ([], s)"
| "mapIsMoved this_isMoved consistencyChecks (point # points) s =
     andThen (this_isMoved point consistencyChecks s) (\<lambda>(moved, s').
       andThen (mapIsMoved this_isMoved consistencyChecks points s') (\<lambda>(rest, s'').
         returns (moved # rest, s'')))"

definition relevantPoints :: "element_id \<Rightarrow> segment list \<Rightarrow> int \<Rightarrow> element_id list option" where
  "relevantPoints cstart csegments segmentIndex =
     (case (if segmentIndex = 0 then Some cstart
            else map_option segment_end (at_index csegments (segmentIndex - 1))) of
        None \<Rightarrow> None
      | Some previous \<Rightarrow>
          (case at_index csegments segmentIndex of
             None \<Rightarrow> None
           | Some seg \<Rightarrow> Some ([previous, segment_end seg] @
               (case seg of SCanvasBezierSegment e c1 c2 \<Rightarrow> [c1, c2] | _ \<Rightarrow> []))))"

definition isCanvasConnectionSegmentMoved ::
  "is_moved \<Rightarrow> element_id \<Rightarrow> segment list \<Rightarrow> int \<Rightarrow> bool \<Rightarrow> selector \<Rightarrow> (bool \<times> selector) res" where
  "isCanvasConnectionSegmentMoved this_isMoved cstart csegments segmentIndex consistencyChecks s =
     (case relevantPoints cstart csegments segmentIndex of
        None \<Rightarrow> throws TypeError
      | Some points \<Rightarrow>
          andThen (mapIsMoved this_isMoved consistencyChecks points s) (\<lambda>(isMovedList, s').
            let result = list_ex (\<lambda>moved. moved) isMovedList in
            if consistencyChecks \<and> result \<and> list_ex (\<lambda>moved. \<not> moved) isMovedList
            then returns (result, s'\<lparr>hasConflict := True\<rparr>)
            else returns (result, s')))"

definition isParentCanvasImplicitlyMoved ::
  "is_moved \<Rightarrow> selement \<Rightarrow> bool \<Rightarrow> selector \<Rightarrow> (bool \<times> selector) res" where
  "isParentCanvasImplicitlyMoved this_isMoved element consistencyChecks s =
     (case parent element of
        None \<Rightarrow> throws TypeError
      | Some canvas \<Rightarrow>
          (case isMovedLookup s (ident canvas) of
             Some isCanvasMoved \<Rightarrow> returns (isCanvasMoved, s)
           | None \<Rightarrow>
               andThen
                 (case findParentByFeature (\<lambda>p. isMarker p \<or> isCanvasElement p) canvas of
                    None \<Rightarrow> returns (False, s)
                  | Some parentCanvasContent \<Rightarrow>
                      (case kind parentCanvasContent of
                         SCanvasElement p \<Rightarrow> this_isMoved (ident parentCanvasContent) consistencyChecks s
                       | SMarker mpos pid \<Rightarrow>
                           (case parent parentCanvasContent of
                              None \<Rightarrow> throws TypeError
                            | Some connection \<Rightarrow>
                                (case kind connection of
                                   SCanvasConnection cstart csegments \<Rightarrow>
                                     isCanvasConnectionSegmentMoved this_isMoved cstart csegments
                                       (if mpos = ''start'' then 0 else int (length csegments) - 1)
                                       consistencyChecks s
                                 | _ \<Rightarrow> throws TypeError))
                       | _ \<Rightarrow> returns (False, s)))
                 (\<lambda>(isParentCanvasMoved, s').
                    returns (isParentCanvasMoved,
                      s'\<lparr>isMovedLookup := (isMovedLookup s')(ident canvas \<mapsto> isParentCanvasMoved)\<rparr>))))"

definition isElementImplicitlyMoved ::
  "is_moved \<Rightarrow> index \<Rightarrow> elem \<Rightarrow> bool \<Rightarrow> selector \<Rightarrow> (bool \<times> selector) res" where
  "isElementImplicitlyMoved this_isMoved idx element consistencyChecks s =
     (case element of
        None \<Rightarrow> returns (False, s)
      | Some e \<Rightarrow>
          (case kind e of
             SCanvasElement p \<Rightarrow>
               (case p of
                  Some p' \<Rightarrow> this_isMoved p' consistencyChecks s
                | None \<Rightarrow> isParentCanvasImplicitlyMoved this_isMoved e consistencyChecks s)
           | SRelativePoint tgt ed \<Rightarrow>
               (case map_option kind (getById idx tgt) of
                  Some (SCanvasConnection cstart csegments) \<Rightarrow>
                    (case at_last csegments of
                       None \<Rightarrow> throws TypeError
                     | Some seg \<Rightarrow> this_isMoved (segment_end seg) consistencyChecks s)
                | _ \<Rightarrow> this_isMoved tgt consistencyChecks s)
           | SLinePoint lineProviderId lpos \<Rightarrow>
               (case map_option kind (getById idx lineProviderId) of
                  Some (SCanvasElement p) \<Rightarrow> this_isMoved lineProviderId consistencyChecks s
                | Some (SCanvasConnection cstart csegments) \<Rightarrow>
                    isCanvasConnectionSegmentMoved this_isMoved cstart csegments
                      (calcSegmentIndex idx lpos (length csegments)) consistencyChecks s
                | _ \<Rightarrow> returns (False, s))
           | SAbsolutePoint \<Rightarrow> isParentCanvasImplicitlyMoved this_isMoved e consistencyChecks s
           | _ \<Rightarrow> returns (False, s)))"

definition isElementMoved ::
  "is_moved \<Rightarrow> index \<Rightarrow> selement \<Rightarrow> bool \<Rightarrow> selector \<Rightarrow> (bool \<times> selector) res" where
  "isElementMoved this_isMoved idx element consistencyChecks s =
     (if Some element \<in> set (movedElements s) then returns (True, s)
      else isElementImplicitlyMoved this_isMoved idx (Some element) consistencyChecks s)"

primrec isMoved :: "nat \<Rightarrow> index \<Rightarrow> is_moved" where
  "isMoved 0 idx = (\<lambda>elementId consistencyChecks s. None)"
| "isMoved (Suc n) idx = (\<lambda>elementId consistencyChecks s.
     (case isMovedLookup s elementId of
        Some fromLookup \<Rightarrow> returns (fromLookup, s)
      | None \<Rightarrow>
          (case getById idx elementId of
             None \<Rightarrow> throws InvalidElement
           | Some element \<Rightarrow>
               if isCanvasElement element \<or> isCanvasPoint element then
                 andThen (isElementMoved (isMoved n idx) idx element consistencyChecks s)
                   (\<lambda>(moved, s'). returns (moved,
                      s'\<lparr>isMovedLookup := (isMovedLookup s')(elementId \<mapsto> moved)\<rparr>))
               else throws InvalidElement)))"

text \<open>The loops of \<^verbatim>\<open>pruneMovedElements\<close>.\<close>

fun pruneLoop :: "is_moved \<Rightarrow> index \<Rightarrow> elem list \<Rightarrow> selector \<Rightarrow> selector res" where
  "pruneLoop this_isMoved idx [] s = returns s"
| "pruneLoop this_isMoved idx (element # elements) s =
     andThen (isElementImplicitlyMoved this_isMoved idx element True s) (\<lambda>(implicitlyMoved, s').
       pruneLoop this_isMoved idx elements
         (if implicitlyMoved
          then s'\<lparr>implicitlyMovedElements := setAdd element (implicitlyMovedElements s')\<rparr>
          else s'))"

definition pruneMovedElements :: "nat \<Rightarrow> index \<Rightarrow> selector \<Rightarrow> selector res" where
  "pruneMovedElements n idx s =
     andThen (pruneLoop (isMoved n idx) idx (movedElements s) s) (\<lambda>s'.
       returns (s'\<lparr>movedElements := fold removeAll (implicitlyMovedElements s') (movedElements s')\<rparr>))"

fun registerAdditionalLoop :: "is_moved \<Rightarrow> index \<Rightarrow> selement list \<Rightarrow> selector \<Rightarrow> selector res" where
  "registerAdditionalLoop this_isMoved idx [] s = returns s"
| "registerAdditionalLoop this_isMoved idx (element # elements) s =
     (if isCanvasElement element \<or> isCanvasPoint element then
        (if Some element \<notin> set (movedElements s) then
           andThen (isElementImplicitlyMoved this_isMoved idx (Some element) False s)
             (\<lambda>(implicitlyMoved, s').
               registerAdditionalLoop this_isMoved idx elements
                 (if implicitlyMoved
                  then s'\<lparr>implicitlyMovedElements := setAdd (Some element) (implicitlyMovedElements s')\<rparr>
                  else s'))
         else registerAdditionalLoop this_isMoved idx elements s)
      else registerAdditionalLoop this_isMoved idx elements s)"

definition registerAdditionalImplicitlyMovedElements :: "nat \<Rightarrow> index \<Rightarrow> selector \<Rightarrow> selector res" where
  "registerAdditionalImplicitlyMovedElements n idx s =
     registerAdditionalLoop (isMoved n idx) idx (allElements idx) s"

text \<open>
  One pass of the \<^verbatim>\<open>for\<close> loop of \<^verbatim>\<open>registerElements\<close> over the current elements:
  the elements to look at next, and what is recorded as moved.
\<close>

definition expandFirst :: "index \<Rightarrow> elem \<Rightarrow> elem list \<times> elem list \<Rightarrow> (error + elem list \<times> elem list)" where
  "expandFirst idx element acc =
     (case acc of (newElements, moved) \<Rightarrow>
       (case map_option kind element of
          Some (SCanvasConnection cstart csegments) \<Rightarrow>
            (case at_last csegments of
               None \<Rightarrow> Inl TypeError
             | Some seg \<Rightarrow> Inr (setAdd (getById idx (segment_end seg)) newElements, moved))
        | Some (SMarker mpos pid) \<Rightarrow> Inr (setAdd (getById idx pid) newElements, moved)
        | _ \<Rightarrow> Inr (newElements, setAdd element moved)))"

definition expandSecond :: "index \<Rightarrow> elem \<Rightarrow> elem list \<Rightarrow> elem list" where
  "expandSecond idx element newElements =
     (case map_option kind element of
        Some (SCanvasElement p) \<Rightarrow>
          (case p of Some p' \<Rightarrow> setAdd (getById idx p') newElements | None \<Rightarrow> newElements)
      | Some (SRelativePoint tgt ed) \<Rightarrow>
          (let editable = (MOVE_X \<in> set ed \<or> MOVE_Y \<in> set ed)
           in if \<not> editable then setAdd (getById idx tgt) newElements else newElements)
      | _ \<Rightarrow> newElements)"

fun registerPass :: "index \<Rightarrow> elem list \<Rightarrow> elem list \<times> elem list \<Rightarrow> (error + elem list \<times> elem list)" where
  "registerPass idx [] acc = Inr acc"
| "registerPass idx (element # elements) acc =
     (case expandFirst idx element acc of
        Inl e \<Rightarrow> Inl e
      | Inr (newElements, moved) \<Rightarrow>
          registerPass idx elements (expandSecond idx element newElements, moved))"

fun registerElements :: "nat \<Rightarrow> index \<Rightarrow> elem list \<Rightarrow> selector \<Rightarrow> selector res" where
  "registerElements n idx [] s = returns s"
| "registerElements 0 idx (element # elements) s = None"
| "registerElements (Suc n) idx (element # elements) s =
     (case registerPass idx (element # elements) ([], movedElements s) of
        Inl e \<Rightarrow> throws e
      | Inr (newElements, moved) \<Rightarrow> registerElements n idx newElements (s\<lparr>movedElements := moved\<rparr>))"

definition emptySelector :: selector where
  "emptySelector = \<lparr>movedElements = [], implicitlyMovedElements = [], hasConflict = False,
     isMovedLookup = Map.empty\<rparr>"

text \<open>The constructor; its result is the selector with its output fields.\<close>

definition MovedElementsSelector :: "nat \<Rightarrow> index \<Rightarrow> selement list \<Rightarrow> selector res" where
  "MovedElementsSelector n idx selected =
     andThen (registerElements n idx (newSet (map Some selected)) emptySelector) (\<lambda>s1.
       andThen (pruneMovedElements n idx s1) (\<lambda>s2.
         registerAdditionalImplicitlyMovedElements n idx s2))"

section \<open>Projection of a point on a line, with rounding\<close>

text \<open>
  \<^verbatim>\<open>projectPointOnLine\<close> and its helpers. The line engine, the transformed line and
  the rounding functions of the shared settings belong to the packages
  \<^verbatim>\<open>diagram-common\<close> and \<^verbatim>\<open>diagram-protocol\<close>; they are parameters of the model
  (\<open>env\<close>), the transformed line an abstract value of which only the number of
  segments is read.
\<close>

record point =
  px :: real
  py :: real

record projectionResult =
  pos :: real
  segment :: int
  relativePos :: real
  distance :: real

record sharedSettings =
  linePointPosPrecision :: "real option"

record roundingInformation =
  settings :: sharedSettings
  hasSegment :: bool

record 'l env =
  projectPoint :: "point \<Rightarrow> 'l \<Rightarrow> real option \<Rightarrow> projectionResult"
  getPoint :: "real \<Rightarrow> int option \<Rightarrow> real \<Rightarrow> 'l \<Rightarrow> point"
  getNormalVector :: "real \<Rightarrow> int option \<Rightarrow> 'l \<Rightarrow> point"
  segmentsLength :: "'l \<Rightarrow> nat"
  roundToPrecision :: "real \<Rightarrow> real \<Rightarrow> real"
  roundToLinePointDistancePrecision :: "sharedSettings \<Rightarrow> real \<Rightarrow> real"

text \<open>
  \<^verbatim>\<open>Number(v.toPrecision(p))\<close>: the decimal number with \<open>p\<close> significant digits
  nearest to \<open>v\<close>, the larger one of two equally near.
\<close>

definition toPrecision :: "nat \<Rightarrow> real \<Rightarrow> real" where
  "toPrecision p v =
     (if v = 0 then 0
      else (let e = \<lfloor>log 10 \<bar>v\<bar>\<rfloor>;
                step = 10 powi (e - int p + 1);
                n = \<lfloor>\<bar>v\<bar> / step + 1 / 2\<rfloor>
            in sgn v * of_int n * step))"

text \<open>
  Modelled from the spec: \<^verbatim>\<open>Math2D.distance\<close> (package \<^verbatim>\<open>diagram-common\<close>), which
  the spec names the Euclidean distance.
\<close>

definition Math2D_distance :: "point \<Rightarrow> point \<Rightarrow> real" where
  "Math2D_distance a b = sqrt ((px a - px b)\<^sup>2 + (py a - py b)\<^sup>2)"

text \<open>
  The division by the number of segments is the exact one; for a line without segments
  JavaScript yields an infinity or NaN where the model yields 0.
\<close>

definition createProjectionResult ::
  "'l env \<Rightarrow> real \<Rightarrow> bool \<Rightarrow> 'l \<Rightarrow> real \<Rightarrow> int \<Rightarrow> projectionResult" where
  "createProjectionResult e value isSegment transformedLine dst originalSegment =
     (if isSegment then
        \<lparr>pos = (of_int originalSegment + value) / of_nat (segmentsLength e transformedLine),
         segment = originalSegment, relativePos = value, distance = dst\<rparr>
      else
        (let segmentIndex = \<lfloor>value * of_nat (segmentsLength e transformedLine)\<rfloor>
         in \<lparr>pos = value, segment = segmentIndex,
             relativePos = value * of_nat (segmentsLength e transformedLine) - of_int segmentIndex,
             distance = dst\<rparr>))"

text \<open>
  The same function on IEEE 754 doubles, the numbers of the program: every arithmetic
  operation yields the double nearest to the exact result, the one with the even
  significand of two equally near. \<open>toDouble\<close> is this rounding, with the subnormal
  numbers below \<open>2\<^sup>-\<^sup>1\<^sup>0\<^sup>2\<^sup>2\<close>; results of magnitude \<open>2\<^sup>1\<^sup>0\<^sup>2\<^sup>4\<close> and more, which
  are infinite in the program, do not arise from a position in \<open>[0, 1]\<close> and the
  length of an array. The value, the original segment and the number of segments are
  doubles already; \<^verbatim>\<open>Math.floor\<close> is exact.
\<close>

definition roundHalfEven :: "real \<Rightarrow> int" where
  "roundHalfEven q =
     (let f = \<lfloor>q\<rfloor>
      in if q - of_int f < 1 / 2 then f
         else if 1 / 2 < q - of_int f then f + 1
         else if even f then f else f + 1)"

definition toDouble :: "real \<Rightarrow> real" where
  "toDouble x =
     (if x = 0 then 0
      else (let e = max \<lfloor>log 2 \<bar>x\<bar>\<rfloor> (- 1022);
                ulp = 2 powi (e - 52)
            in of_int (roundHalfEven (x / ulp)) * ulp))"



text \<open>
  \<^verbatim>\<open>minDistance\<close> starts at \<^verbatim>\<open>Number.POSITIVE_INFINITY\<close>, here \<open>None\<close>.
\<close>

definition lessThanMin :: "real \<Rightarrow> real option \<Rightarrow> bool" where
  "lessThanMin d minDistance = (case minDistance of None \<Rightarrow> True | Some m \<Rightarrow> d < m)"

definition testFixedDistance ::
  "'l env \<Rightarrow> point \<Rightarrow> 'l \<Rightarrow> projectionResult \<Rightarrow> bool \<Rightarrow> real \<Rightarrow>
     projectionResult \<times> real option \<Rightarrow> real \<Rightarrow> projectionResult \<times> real option" where
  "testFixedDistance e p transformedLine originalProjection isSegment forcedDistance best roundedValue =
     (if roundedValue < 0 \<or> roundedValue > 1 then best
      else
        (let result = createProjectionResult e roundedValue isSegment transformedLine forcedDistance
               (segment originalProjection);
             pointOnLine =
               (if isSegment
                then getPoint e (relativePos result) (Some (segment result)) forcedDistance transformedLine
                else getPoint e (pos result) None forcedDistance transformedLine);
             d = Math2D_distance p pointOnLine
         in if lessThanMin d (snd best) then (result, Some d) else best))"

definition findBestProjectionWithFixedDistance ::
  "'l env \<Rightarrow> point \<Rightarrow> 'l \<Rightarrow> real list \<Rightarrow> projectionResult \<Rightarrow> bool \<Rightarrow> real \<Rightarrow> projectionResult" where
  "findBestProjectionWithFixedDistance e p transformedLine optionsToTest originalProjection isSegment
       forcedDistance =
     fst (foldl (testFixedDistance e p transformedLine originalProjection isSegment forcedDistance)
            (originalProjection, None) optionsToTest)"

text \<open>
  The quotient of \<^verbatim>\<open>findOptimalDistanceFromLine\<close> is NaN or infinite in JavaScript
  when the normal vector is zero (\<open>None\<close> here).
\<close>

definition findOptimalDistanceFromLine ::
  "'l env \<Rightarrow> real \<Rightarrow> int option \<Rightarrow> 'l \<Rightarrow> point \<Rightarrow> real option" where
  "findOptimalDistanceFromLine e position seg transformedLine p =
     (let pointOnLine = getPoint e position seg 0 transformedLine;
          normalVector = getNormalVector e position seg transformedLine;
          dx = px p - px pointOnLine;
          dy = py p - py pointOnLine;
          d2 = (px normalVector)\<^sup>2 + (py normalVector)\<^sup>2
      in if d2 = 0 then None
         else Some ((dx * px normalVector + dy * py normalVector) / d2))"

text \<open>
  No comparison with NaN holds, and the point at an infinite distance along a zero
  normal vector is NaN: a candidate without a finite optimal distance never becomes
  the best result.
\<close>

definition testOptimalDistance ::
  "'l env \<Rightarrow> point \<Rightarrow> 'l \<Rightarrow> projectionResult \<Rightarrow> bool \<Rightarrow>
     projectionResult \<times> real option \<Rightarrow> real \<Rightarrow> projectionResult \<times> real option" where
  "testOptimalDistance e p transformedLine originalProjection isSegment best roundedValue =
     (let baseResult = createProjectionResult e roundedValue isSegment transformedLine 0
            (segment originalProjection)
      in (case findOptimalDistanceFromLine e
                (if isSegment then relativePos baseResult else pos baseResult)
                (if isSegment then Some (segment baseResult) else None) transformedLine p of
            None \<Rightarrow> best
          | Some optimalDistance \<Rightarrow>
              (let result = baseResult\<lparr>distance := optimalDistance\<rparr>;
                   projectedPoint =
                     (if isSegment
                      then getPoint e (relativePos result) (Some (segment result)) optimalDistance
                             transformedLine
                      else getPoint e (pos result) None optimalDistance transformedLine);
                   distanceToPoint = Math2D_distance p projectedPoint
               in if lessThanMin distanceToPoint (snd best) then (result, Some distanceToPoint)
                  else best)))"

definition findBestProjectionWithOptimalDistance ::
  "'l env \<Rightarrow> point \<Rightarrow> 'l \<Rightarrow> real list \<Rightarrow> projectionResult \<Rightarrow> bool \<Rightarrow> sharedSettings
     \<Rightarrow> projectionResult" where
  "findBestProjectionWithOptimalDistance e p transformedLine optionsToTest originalProjection isSegment
       sets =
     (let bestResult = fst (foldl (testOptimalDistance e p transformedLine originalProjection isSegment)
            (originalProjection, None) optionsToTest)
      in bestResult\<lparr>distance := roundToLinePointDistancePrecision e sets (distance bestResult)\<rparr>)"

definition optionsToTest :: "'l env \<Rightarrow> real option \<Rightarrow> real \<Rightarrow> real list" where
  "optionsToTest e posPrecision valueToRound =
     (case posPrecision of
        None \<Rightarrow>
          (let roundedValue = toPrecision 15 valueToRound
           in [roundedValue, roundedValue + 1 / 10 ^ 15, roundedValue - 1 / 10 ^ 15])
      | Some precision \<Rightarrow>
          (let roundedValue = min (max (roundToPrecision e valueToRound precision) 0) 1
           in [roundedValue, roundedValue + precision, roundedValue - precision]))"

definition projectPointOnLine ::
  "'l env \<Rightarrow> point \<Rightarrow> 'l \<Rightarrow> roundingInformation \<Rightarrow> real option \<Rightarrow> projectionResult" where
  "projectPointOnLine e p transformedLine info forcedDistance =
     (let originalProjection = projectPoint e p transformedLine forcedDistance;
          posPrecision = linePointPosPrecision (settings info);
          isSegment = hasSegment info
      in if posPrecision = None \<and> isSegment then originalProjection
         else
           (let valueToRound =
                  (if isSegment then relativePos originalProjection else pos originalProjection);
                options = optionsToTest e posPrecision valueToRound
            in (case forcedDistance of
                  Some fd \<Rightarrow>
                    findBestProjectionWithFixedDistance e p transformedLine options originalProjection
                      isSegment fd
                | None \<Rightarrow>
                    findBestProjectionWithOptimalDistance e p transformedLine options originalProjection
                      isSegment (settings info))))"

text \<open>
  For the statement of what the rounding returns when the global position is rounded:
  the candidate that is accepted with a fixed distance and has the least distance to the
  point, and the candidate with a finite optimal distance that has the least distance to
  the point.
\<close>

definition nearestFixedCandidate :: "'l env \<Rightarrow> point \<Rightarrow> 'l \<Rightarrow> real \<Rightarrow> real list \<Rightarrow> real \<Rightarrow> bool" where
  "nearestFixedCandidate e p transformedLine fd options v \<longleftrightarrow>
     v \<in> set options \<and> 0 \<le> v \<and> v \<le> 1
     \<and> (\<forall>w \<in> set options. 0 \<le> w \<and> w \<le> 1 \<longrightarrow>
           Math2D_distance p (getPoint e v None fd transformedLine)
           \<le> Math2D_distance p (getPoint e w None fd transformedLine))"

definition nearestOptimalCandidate :: "'l env \<Rightarrow> point \<Rightarrow> 'l \<Rightarrow> real list \<Rightarrow> real \<Rightarrow> real \<Rightarrow> bool" where
  "nearestOptimalCandidate e p transformedLine options v od \<longleftrightarrow>
     v \<in> set options \<and> findOptimalDistanceFromLine e v None transformedLine p = Some od
     \<and> (\<forall>w \<in> set options. \<forall>od'.
           findOptimalDistanceFromLine e w None transformedLine p = Some od' \<longrightarrow>
           Math2D_distance p (getPoint e v None od transformedLine)
           \<le> Math2D_distance p (getPoint e w None od' transformedLine))"

section \<open>Bounds of canvas elements and markers\<close>

record dimensions =
  width :: real
  height :: real

record bounds =
  position :: point
  bsize :: dimensions

record marker = dimensions +
  refX :: real
  refY :: real

record markerLayoutInformation =
  marker :: marker
  markerPosition :: point
  markerRotation :: real

record canvasElement = dimensions +
  rotation :: real
  dx :: real
  dy :: real

text \<open>
  Modelled from the spec: the rotation of a point about the origin by an angle in radians,
  for \<^verbatim>\<open>Math2D.rotateBounds\<close> (package \<^verbatim>\<open>diagram-common\<close>). The spec asks for the
  axis-aligned envelope of the rotated rectangle: the four corners are rotated and
  enclosed by the smallest box.
\<close>

definition rotatePoint :: "point \<Rightarrow> real \<Rightarrow> point" where
  "rotatePoint p r = \<lparr>px = px p * cos r - py p * sin r, py = px p * sin r + py p * cos r\<rparr>"

text \<open>Modelled from the spec: the corners of the rectangle, for \<open>rotateBounds\<close>.\<close>

definition corners :: "bounds \<Rightarrow> point list" where
  "corners b =
     (let x0 = px (position b); y0 = py (position b); w = width (bsize b); h = height (bsize b)
      in [\<lparr>px = x0, py = y0\<rparr>, \<lparr>px = x0 + w, py = y0\<rparr>,
          \<lparr>px = x0, py = y0 + h\<rparr>, \<lparr>px = x0 + w, py = y0 + h\<rparr>])"

text \<open>Modelled from the spec: the smallest axis-aligned box around points, for \<open>rotateBounds\<close>.\<close>

definition enclose :: "point list \<Rightarrow> bounds" where
  "enclose ps =
     (let minX = Min (set (map px ps)); maxX = Max (set (map px ps));
          minY = Min (set (map py ps)); maxY = Max (set (map py ps))
      in \<lparr>position = \<lparr>px = minX, py = minY\<rparr>,
          bsize = \<lparr>width = maxX - minX, height = maxY - minY\<rparr>\<rparr>)"

text \<open>
  Modelled from the spec: \<^verbatim>\<open>Math2D.rotateBounds\<close>, the axis-aligned envelope of the
  rectangle rotated about the origin.
\<close>

definition rotateBounds :: "bounds \<Rightarrow> real \<Rightarrow> bounds" where
  "rotateBounds b r = enclose (map (\<lambda>p. rotatePoint p r) (corners b))"

definition calculateRotatedRectangleBounds ::
  "point \<Rightarrow> real \<Rightarrow> real \<Rightarrow> real \<Rightarrow> real \<Rightarrow> real \<Rightarrow> bounds" where
  "calculateRotatedRectangleBounds anchor rot x0 y0 w h =
     (let b = rotateBounds \<lparr>position = \<lparr>px = x0, py = y0\<rparr>, bsize = \<lparr>width = w, height = h\<rparr>\<rparr>
                (rot * pi / 180)
      in \<lparr>position = \<lparr>px = px (position b) + px anchor, py = py (position b) + py anchor\<rparr>,
          bsize = bsize b\<rparr>)"

text \<open>
  \<^verbatim>\<open>layout.layoutEngine.layoutElement\<close> resolves the position of a canvas element; it
  is a parameter.
\<close>

definition calculateCanvasElementBounds :: "(canvasElement \<Rightarrow> point) \<Rightarrow> canvasElement \<Rightarrow> bounds" where
  "calculateCanvasElementBounds layoutElement element =
     (let anchor = layoutElement element
      in calculateRotatedRectangleBounds anchor (rotation element) (dx element) (dy element)
           (width element) (height element))"

definition calculateMarkerBounds :: "markerLayoutInformation \<Rightarrow> bounds" where
  "calculateMarkerBounds markerLayout =
     (let m = marker markerLayout;
          x0 = - width m * refX (marker markerLayout);
          y0 = - height m * refY (marker markerLayout)
      in calculateRotatedRectangleBounds (markerPosition markerLayout) (markerRotation markerLayout)
           x0 y0 (width m) (height m))"

text \<open>
  The words of the spec: a \<open>w \<times> h\<close> rectangle whose origin is offset by \<open>(x0, y0)\<close>
  from the anchor, rotated by \<open>rot\<close> degrees about the anchor, in world coordinates;
  and the axis-aligned envelope of a set of points, the smallest box that holds them.
\<close>

definition rotatedRectangle :: "point \<Rightarrow> real \<Rightarrow> real \<Rightarrow> real \<Rightarrow> real \<Rightarrow> real \<Rightarrow> point set" where
  "rotatedRectangle anchor rot x0 y0 w h =
     {q. \<exists>u v. 0 \<le> u \<and> u \<le> 1 \<and> 0 \<le> v \<and> v \<le> 1 \<and>
          q = \<lparr>px = px anchor + ((x0 + u * w) * cos (rot * pi / 180) - (y0 + v * h) * sin (rot * pi / 180)),
               py = py anchor + ((x0 + u * w) * sin (rot * pi / 180) + (y0 + v * h) * cos (rot * pi / 180))\<rparr>}"

definition isEnvelopeOf :: "bounds \<Rightarrow> point set \<Rightarrow> bool" where
  "isEnvelopeOf b A \<longleftrightarrow>
     (\<forall>q \<in> A. px (position b) \<le> px q \<and> px q \<le> px (position b) + width (bsize b)
        \<and> py (position b) \<le> py q \<and> py q \<le> py (position b) + height (bsize b))
     \<and> (\<exists>q \<in> A. px q = px (position b))
     \<and> (\<exists>q \<in> A. px q = px (position b) + width (bsize b))
     \<and> (\<exists>q \<in> A. py q = py (position b))
     \<and> (\<exists>q \<in> A. py q = py (position b) + height (bsize b))"

section \<open>Reference graph and invariants of the selector\<close>

text \<open>
  The references of an element to other contents: the position of a canvas element, the
  target of a relative point, the provider of a line point, the segment ends of a
  connection, and the anchor point of a marker.
\<close>

definition references :: "selement \<Rightarrow> element_id list" where
  "references e =
     (case kind e of
        SCanvasElement p \<Rightarrow> (case p of Some p' \<Rightarrow> [p'] | None \<Rightarrow> [])
      | SRelativePoint tgt ed \<Rightarrow> [tgt]
      | SLinePoint provider lpos \<Rightarrow> [provider]
      | SCanvasConnection cstart csegments \<Rightarrow> map segment_end csegments
      | SMarker mpos pid \<Rightarrow> [pid]
      | _ \<Rightarrow> [])"

definition hasSegments :: "selement \<Rightarrow> bool" where
  "hasSegments x = (case kind x of SCanvasConnection cstart csegments \<Rightarrow> csegments \<noteq> [] | _ \<Rightarrow> True)"

definition referenceGraph :: "index \<Rightarrow> (selement \<times> selement) set" where
  "referenceGraph idx =
     {(a, b). a \<in> ran (getById idx) \<and> (\<exists>i \<in> set (references a). getById idx i = Some b)}"

definition refersTo :: "index \<Rightarrow> elem \<Rightarrow> elem \<Rightarrow> bool" where
  "refersTo idx e y \<longleftrightarrow> (\<exists>x i. e = Some x \<and> i \<in> set (references x) \<and> y = getById idx i)"

text \<open>What a call of \<^verbatim>\<open>isMoved\<close> leaves alone: the two result sets, and a conflict once found.\<close>

definition frame :: "selector \<Rightarrow> selector \<Rightarrow> bool" where
  "frame s s' \<longleftrightarrow> movedElements s' = movedElements s
     \<and> implicitlyMovedElements s' = implicitlyMovedElements s
     \<and> (hasConflict s \<longrightarrow> hasConflict s')"

definition preserves :: "is_moved \<Rightarrow> bool" where
  "preserves f \<longleftrightarrow> (\<forall>i cc s b s'. f i cc s = Some (Inr (b, s')) \<longrightarrow> frame s s')"

definition isConnectionRef :: "elem \<Rightarrow> bool" where
  "isConnectionRef x = (case x of None \<Rightarrow> False | Some e \<Rightarrow> isCanvasConnection e)"

text \<open>
  The canvas of an absolute point, or of a canvas element without a position, is its
  parent. In a diagram with unique ids the index holds that canvas under its id, and a
  canvas is neither a canvas element nor a point.
\<close>

definition parentIndexed :: "index \<Rightarrow> selement \<Rightarrow> bool" where
  "parentIndexed idx e \<longleftrightarrow>
     (case parent e of
        None \<Rightarrow> True
      | Some canvas \<Rightarrow> getById idx (ident canvas) = Some canvas
          \<and> \<not> isCanvasElement canvas \<and> \<not> isCanvasPoint canvas)"

definition canvasIndexed :: "index \<Rightarrow> selement \<Rightarrow> bool" where
  "canvasIndexed idx e \<longleftrightarrow>
     (kind e = SAbsolutePoint \<or> kind e = SCanvasElement None \<longrightarrow> parentIndexed idx e)"

definition canvasesIndexed :: "index \<Rightarrow> selement list \<Rightarrow> bool" where
  "canvasesIndexed idx selected \<longleftrightarrow>
     list_all (canvasIndexed idx) selected
     \<and> (\<forall>k e. getById idx k = Some e \<longrightarrow> canvasIndexed idx e)"

text \<open>
  While the moved checks run, the lookup of \<^verbatim>\<open>isMoved\<close> holds no wrong entry for a
  point \<open>m\<close> among the moved elements, for an absolute point \<open>q\<close> that is not among them
  and lies on a canvas outside every canvas element and marker, and for that canvas; and
  \<^verbatim>\<open>isMoved\<close> answers accordingly.
\<close>

definition lookupSound :: "index \<Rightarrow> elem list \<Rightarrow> element_id \<Rightarrow> element_id \<Rightarrow> selement \<Rightarrow> selector \<Rightarrow> bool" where
  "lookupSound idx moved m q canvas s \<longleftrightarrow>
     movedElements s = moved
     \<and> isMovedLookup s (ident canvas) \<noteq> Some True
     \<and> (getById idx q \<notin> set moved \<longrightarrow> isMovedLookup s q \<noteq> Some True)
     \<and> (getById idx m \<in> set moved \<longrightarrow> isMovedLookup s m \<noteq> Some False)"

definition soundIsMoved :: "index \<Rightarrow> elem list \<Rightarrow> element_id \<Rightarrow> element_id \<Rightarrow> selement \<Rightarrow> is_moved \<Rightarrow> bool" where
  "soundIsMoved idx moved m q canvas f \<longleftrightarrow>
     (\<forall>i cc s b s'. lookupSound idx moved m q canvas s \<longrightarrow> f i cc s = Some (Inr (b, s')) \<longrightarrow>
        lookupSound idx moved m q canvas s'
        \<and> (i = m \<longrightarrow> getById idx m \<in> set moved \<longrightarrow> b)
        \<and> (i = q \<longrightarrow> getById idx q \<notin> set moved \<longrightarrow> \<not> b))"

definition anchored :: "index \<Rightarrow> element_id \<Rightarrow> element_id \<Rightarrow> selement \<Rightarrow> bool" where
  "anchored idx m q canvas \<longleftrightarrow>
     (\<exists>M. getById idx m = Some M \<and> isCanvasPoint M)
     \<and> (\<exists>Q. getById idx q = Some Q \<and> kind Q = SAbsolutePoint \<and> parent Q = Some canvas)
     \<and> findParentByFeature (\<lambda>p. isMarker p \<or> isCanvasElement p) canvas = None
     \<and> (\<forall>k e. getById idx k = Some e \<longrightarrow> canvasIndexed idx e)"

section \<open>Concrete inputs\<close>

text \<open>
  A small diagram: a root canvas with two absolute points \<open>p\<close> and \<open>e\<close>, a shape
  positioned at \<open>p\<close>, and a connection from \<open>p\<close> with one straight segment ending at \<open>e\<close>.
\<close>

definition root_canvas :: selement where
  "root_canvas = SElement ''root'' None SOther"

definition point_P :: selement where
  "point_P = SElement ''p'' (Some root_canvas) SAbsolutePoint"

definition point_E :: selement where
  "point_E = SElement ''e'' (Some root_canvas) SAbsolutePoint"

definition shape_S :: selement where
  "shape_S = SElement ''s'' (Some root_canvas) (SCanvasElement (Some ''p''))"

definition connection_C :: selement where
  "connection_C = SElement ''c'' (Some root_canvas) (SCanvasConnection ''p'' [SCanvasSegment ''e''])"

definition example_index :: index where
  "example_index =
     \<lparr>getById = map_of [(''root'', root_canvas), (''p'', point_P), (''e'', point_E),
        (''s'', shape_S), (''c'', connection_C)],
      allElements = [root_canvas, point_P, point_E, shape_S, connection_C],
      calcSegmentIndex = (\<lambda>p n. 0)\<rparr>"

text \<open>In the example every reference leads from a shape or a connection to a point.\<close>

definition example_rank :: "selement \<Rightarrow> nat" where
  "example_rank e = (case kind e of SCanvasElement p \<Rightarrow> 1 | SCanvasConnection st sg \<Rightarrow> 1 | _ \<Rightarrow> 0)"

text \<open>The same diagram with a line point \<open>l\<close> on the connection.\<close>

definition point_L :: selement where
  "point_L = SElement ''l'' (Some root_canvas) (SLinePoint ''c'' (Pos (1 / 2)))"

definition line_point_index :: index where
  "line_point_index =
     \<lparr>getById = map_of [(''root'', root_canvas), (''p'', point_P), (''e'', point_E),
        (''s'', shape_S), (''c'', connection_C), (''l'', point_L)],
      allElements = [root_canvas, point_P, point_E, shape_S, connection_C, point_L],
      calcSegmentIndex = (\<lambda>p n. 0)\<rparr>"

text \<open>
  A line engine for the line of one straight segment from \<open>(0, 0)\<close> to \<open>(10, 0)\<close>, with
  the normal vector \<open>(0, -1)\<close>; rounding to a precision rounds to the nearest multiple,
  and no distance precision is configured.
\<close>

definition straight_line :: "unit env" where
  "straight_line =
     \<lparr>projectPoint = (\<lambda>p l forced.
        (let t = min 1 (max 0 (px p / 10))
         in \<lparr>pos = t, segment = 0, relativePos = t,
             distance = (case forced of Some d \<Rightarrow> d | None \<Rightarrow> - py p)\<rparr>)),
      getPoint = (\<lambda>t seg d l. \<lparr>px = 10 * t, py = - d\<rparr>),
      getNormalVector = (\<lambda>t seg l. \<lparr>px = 0, py = - 1\<rparr>),
      segmentsLength = (\<lambda>l. 1),
      roundToPrecision = (\<lambda>v precision. of_int \<lfloor>v / precision + 1 / 2\<rfloor> * precision),
      roundToLinePointDistancePrecision = (\<lambda>sets d. d)\<rparr>"

text \<open>
  A marker of size \<open>4 \<times> 2\<close> with its reference point in the middle, laid out at
  \<open>(10, 10)\<close> and rotated by 90 degrees; and an unrotated shape of the same size offset
  by \<open>(1, 2)\<close>.
\<close>

definition example_marker :: markerLayoutInformation where
  "example_marker =
     \<lparr>marker = \<lparr>width = 4, height = 2, refX = 1 / 2, refY = 1 / 2\<rparr>,
      markerPosition = \<lparr>px = 10, py = 10\<rparr>, markerRotation = 90\<rparr>"

definition example_shape :: canvasElement where
  "example_shape = \<lparr>width = 4, height = 2, rotation = 0, dx = 1, dy = 2\<rparr>"


section \<open>Basic facts\<close>

lemma andThen_Inr: "andThen m f = Some (Inr r) \<longleftrightarrow> (\<exists>a. m = Some (Inr a) \<and> f a = Some (Inr r))"
  by (auto simp: andThen_def split: option.splits sum.splits)

lemma returns_Inr: "returns a = Some (Inr r) \<longleftrightarrow> a = r"
  by (simp add: returns_def)

lemma throws_Inr: "throws e \<noteq> Some (Inr r)"
  by (simp add: throws_def)

lemma returned_cases:
  "(case r of Some (Inr v) \<Rightarrow> True | _ \<Rightarrow> False) \<Longrightarrow> \<exists>v. r = Some (Inr v)"
  by (auto split: option.splits sum.splits)

lemma set_setAdd: "set (setAdd x xs) = insert x (set xs)"
  by (auto simp: setAdd_def)

lemma set_fold_removeAll: "set (fold removeAll xs ys) = set ys - set xs"
  by (induction xs arbitrary: ys) auto

lemmas selector_defs =
  MovedElementsSelector_def newSet_def setAdd_def emptySelector_def andThen_def returns_def
  throws_def expandFirst_def expandSecond_def pruneMovedElements_def
  registerAdditionalImplicitlyMovedElements_def isElementImplicitlyMoved_def isElementMoved_def
  isParentCanvasImplicitlyMoved_def isCanvasConnectionSegmentMoved_def isCanvasElement_def
  isCanvasPoint_def isMarker_def relevantPoints_def at_index_def at_last_def

lemmas example_defs =
  example_index_def line_point_index_def root_canvas_def point_P_def point_E_def shape_S_def
  connection_C_def point_L_def

section \<open>The result sets are left alone by the moved checks\<close>

lemma frame_refl: "frame s s"
  by (simp add: frame_def)

lemma frame_trans: "frame s s' \<Longrightarrow> frame s' s'' \<Longrightarrow> frame s s''"
  by (simp add: frame_def)

lemma frame_lookup: "frame s s' \<Longrightarrow> frame s (s'\<lparr>isMovedLookup := m\<rparr>)"
  by (simp add: frame_def)

lemma frame_conflict: "frame s s' \<Longrightarrow> frame s (s'\<lparr>hasConflict := True\<rparr>)"
  by (simp add: frame_def)

lemma preservesD: "preserves f \<Longrightarrow> f i cc s = Some (Inr (b, s')) \<Longrightarrow> frame s s'"
  by (auto simp: preserves_def)

lemma mapIsMoved_frame:
  "preserves f \<Longrightarrow> mapIsMoved f cc ps s = Some (Inr (bs, s')) \<Longrightarrow> frame s s'"
proof (induction ps arbitrary: s bs s')
  case Nil
  then show ?case by (simp add: returns_Inr frame_refl)
next
  case (Cons p ps)
  from Cons.prems(2) obtain b s1 rest where
    1: "f p cc s = Some (Inr (b, s1))" and 2: "mapIsMoved f cc ps s1 = Some (Inr (rest, s'))"
    by (auto simp: andThen_Inr returns_Inr)
  from preservesD[OF Cons.prems(1) 1] Cons.IH[OF Cons.prems(1) 2] show ?case
    by (rule frame_trans)
qed

lemma isCanvasConnectionSegmentMoved_frame:
  "preserves f \<Longrightarrow> isCanvasConnectionSegmentMoved f st sg i cc s = Some (Inr (b, s')) \<Longrightarrow> frame s s'"
  by (auto simp: isCanvasConnectionSegmentMoved_def andThen_Inr returns_Inr throws_Inr Let_def
      split: option.splits if_splits dest: mapIsMoved_frame intro: frame_conflict)

lemma isParentCanvasImplicitlyMoved_frame:
  "preserves f \<Longrightarrow> isParentCanvasImplicitlyMoved f e cc s = Some (Inr (b, s')) \<Longrightarrow> frame s s'"
  by (auto simp: isParentCanvasImplicitlyMoved_def andThen_Inr returns_Inr throws_Inr frame_refl
      split: option.splits kind.splits
      dest: isCanvasConnectionSegmentMoved_frame preservesD intro: frame_lookup)

lemma isElementImplicitlyMoved_frame:
  "preserves f \<Longrightarrow> isElementImplicitlyMoved f idx e cc s = Some (Inr (b, s')) \<Longrightarrow> frame s s'"
  by (auto simp: isElementImplicitlyMoved_def returns_Inr throws_Inr frame_refl
      split: option.splits kind.splits
      dest: isCanvasConnectionSegmentMoved_frame isParentCanvasImplicitlyMoved_frame preservesD)

lemma isElementMoved_frame:
  "preserves f \<Longrightarrow> isElementMoved f idx e cc s = Some (Inr (b, s')) \<Longrightarrow> frame s s'"
  by (auto simp: isElementMoved_def returns_Inr frame_refl split: if_splits
      dest: isElementImplicitlyMoved_frame)

lemma isMoved_preserves: "preserves (isMoved n idx)"
proof (induction n)
  case 0
  show ?case by (simp add: preserves_def)
next
  case (Suc n)
  show ?case
    unfolding preserves_def
    by (auto simp: andThen_Inr returns_Inr throws_Inr frame_refl split: option.splits if_splits
        dest: isElementMoved_frame[OF Suc] intro: frame_lookup)
qed

lemma pruneLoop_sets:
  "preserves f \<Longrightarrow> pruneLoop f idx es s = Some (Inr s') \<Longrightarrow>
     movedElements s' = movedElements s
     \<and> set (implicitlyMovedElements s') \<subseteq> set (implicitlyMovedElements s) \<union> set es"
proof (induction es arbitrary: s)
  case Nil
  then show ?case by (simp add: returns_Inr)
next
  case (Cons e es)
  from Cons.prems(2) obtain b s1 where
    1: "isElementImplicitlyMoved f idx e True s = Some (Inr (b, s1))" and
    2: "pruneLoop f idx es
          (if b then s1\<lparr>implicitlyMovedElements := setAdd e (implicitlyMovedElements s1)\<rparr> else s1)
        = Some (Inr s')"
    by (auto simp: andThen_Inr)
  from isElementImplicitlyMoved_frame[OF Cons.prems(1) 1] have f1: "frame s s1" .
  from Cons.IH[OF Cons.prems(1) 2] f1 show ?case
    by (auto simp: frame_def set_setAdd split: if_splits)
qed

lemma registerAdditionalLoop_sets:
  "preserves f \<Longrightarrow> registerAdditionalLoop f idx es s = Some (Inr s') \<Longrightarrow>
     movedElements s' = movedElements s
     \<and> set (implicitlyMovedElements s') \<subseteq> set (implicitlyMovedElements s)
          \<union> {x. x \<notin> set (movedElements s) \<and> (\<exists>e \<in> set es. x = Some e \<and> (isCanvasElement e \<or> isCanvasPoint e))}"
proof (induction es arbitrary: s)
  case Nil
  then show ?case by (simp add: returns_Inr)
next
  case (Cons e es)
  show ?case
  proof (cases "(isCanvasElement e \<or> isCanvasPoint e) \<and> Some e \<notin> set (movedElements s)")
    case False
    with Cons.prems(2) have "registerAdditionalLoop f idx es s = Some (Inr s')"
      by (auto split: if_splits)
    from Cons.IH[OF Cons.prems(1) this] show ?thesis by auto
  next
    case True
    with Cons.prems(2) obtain b s1 where
      1: "isElementImplicitlyMoved f idx (Some e) False s = Some (Inr (b, s1))" and
      2: "registerAdditionalLoop f idx es
            (if b then s1\<lparr>implicitlyMovedElements := setAdd (Some e) (implicitlyMovedElements s1)\<rparr>
             else s1) = Some (Inr s')"
      by (auto simp: andThen_Inr)
    from isElementImplicitlyMoved_frame[OF Cons.prems(1) 1] have f1: "frame s s1" .
    from Cons.IH[OF Cons.prems(1) 2] f1 True show ?thesis
      by (auto simp: frame_def set_setAdd split: if_splits)
  qed
qed

lemma pruneMovedElements_sets:
  assumes "pruneMovedElements n idx s = Some (Inr s')"
  shows "set (movedElements s') = set (movedElements s) - set (implicitlyMovedElements s')"
    and "set (implicitlyMovedElements s') \<subseteq> set (implicitlyMovedElements s) \<union> set (movedElements s)"
proof -
  from assms obtain s1 where
    1: "pruneLoop (isMoved n idx) idx (movedElements s) s = Some (Inr s1)" and
    2: "s' = s1\<lparr>movedElements := fold removeAll (implicitlyMovedElements s1) (movedElements s1)\<rparr>"
    by (auto simp: pruneMovedElements_def andThen_Inr returns_Inr)
  from pruneLoop_sets[OF isMoved_preserves 1] 2
  show "set (movedElements s') = set (movedElements s) - set (implicitlyMovedElements s')"
    and "set (implicitlyMovedElements s') \<subseteq> set (implicitlyMovedElements s) \<union> set (movedElements s)"
    by (auto simp: set_fold_removeAll)
qed

lemma registerAdditional_sets:
  assumes "registerAdditionalImplicitlyMovedElements n idx s = Some (Inr s')"
  shows "movedElements s' = movedElements s"
    and "set (implicitlyMovedElements s') \<subseteq> set (implicitlyMovedElements s)
          \<union> {x. x \<notin> set (movedElements s)
                \<and> (\<exists>e \<in> set (allElements idx). x = Some e \<and> (isCanvasElement e \<or> isCanvasPoint e))}"
  using registerAdditionalLoop_sets[OF isMoved_preserves, of n idx idx "allElements idx" s s'] assms
  by (auto simp: registerAdditionalImplicitlyMovedElements_def)

lemma MovedElementsSelector_phases:
  assumes "MovedElementsSelector n idx selected = Some (Inr s)"
  obtains s1 s2 where
    "registerElements n idx (newSet (map Some selected)) emptySelector = Some (Inr s1)"
    "pruneMovedElements n idx s1 = Some (Inr s2)"
    "registerAdditionalImplicitlyMovedElements n idx s2 = Some (Inr s)"
  using assms by (auto simp: MovedElementsSelector_def andThen_Inr)

section \<open>Claims about the move selector\<close>

text \<open>
  C3. After the constructor of \<^verbatim>\<open>MovedElementsSelector\<close> has returned, no element is in
  both \<open>movedElements\<close> and \<open>implicitlyMovedElements\<close>: pruning removes from the moved
  elements everything it has put among the implicitly moved ones, and the final sweep
  only adds elements that are not moved.
\<close>

theorem moved_and_implicitly_moved_disjoint:
  assumes "MovedElementsSelector n idx selected = Some (Inr s)"
  shows "set (movedElements s) \<inter> set (implicitlyMovedElements s) = {}"
proof -
  from assms obtain s1 s2 where
    p: "pruneMovedElements n idx s1 = Some (Inr s2)" and
    r: "registerAdditionalImplicitlyMovedElements n idx s2 = Some (Inr s)"
    by (rule MovedElementsSelector_phases)
  from pruneMovedElements_sets(1)[OF p]
  have "set (movedElements s2) \<inter> set (implicitlyMovedElements s2) = {}" by auto
  with registerAdditional_sets[OF r] show ?thesis by auto
qed

theorem moved_and_implicitly_moved_disjoint_witness:
  "\<exists>s. MovedElementsSelector 5 example_index [shape_S] = Some (Inr s)
     \<and> implicitlyMovedElements s \<noteq> []
     \<and> set (movedElements s) \<inter> set (implicitlyMovedElements s) = {}"
proof -
  have "case MovedElementsSelector 5 example_index [shape_S] of
          Some (Inr s) \<Rightarrow> implicitlyMovedElements s \<noteq> [] | _ \<Rightarrow> False"
    by code_simp
  then obtain s where s: "MovedElementsSelector 5 example_index [shape_S] = Some (Inr s)"
    and "implicitlyMovedElements s \<noteq> []"
    by (auto split: option.splits sum.splits)
  with moved_and_implicitly_moved_disjoint[OF s] show ?thesis by blast
qed

lemma expandFirst_moved:
  "expandFirst idx e (new, mv) = Inr (new', mv') \<Longrightarrow>
     \<forall>x \<in> set mv. \<not> isConnectionRef x \<Longrightarrow> \<forall>x \<in> set mv'. \<not> isConnectionRef x"
proof -
  assume a: "expandFirst idx e (new, mv) = Inr (new', mv')"
    and b: "\<forall>x \<in> set mv. \<not> isConnectionRef x"
  from a have "mv' = mv \<or> (mv' = setAdd e mv \<and> \<not> isConnectionRef e)"
    by (auto simp: expandFirst_def isConnectionRef_def isCanvasConnection_def
        split: option.splits kind.splits)
  with b show ?thesis by (auto simp: set_setAdd)
qed

lemma registerPass_moved:
  "registerPass idx es (new, mv) = Inr (new', mv') \<Longrightarrow>
     \<forall>x \<in> set mv. \<not> isConnectionRef x \<Longrightarrow> \<forall>x \<in> set mv'. \<not> isConnectionRef x"
proof (induction es arbitrary: new mv)
  case Nil
  then show ?case by simp
next
  case (Cons e es)
  from Cons.prems(1) obtain new1 mv1 where
    1: "expandFirst idx e (new, mv) = Inr (new1, mv1)" and
    2: "registerPass idx es (expandSecond idx e new1, mv1) = Inr (new', mv')"
    by (auto split: sum.splits)
  from expandFirst_moved[OF 1 Cons.prems(2)] Cons.IH[OF 2] show ?case by blast
qed

lemma registerElements_moved:
  "registerElements n idx es s = Some (Inr s') \<Longrightarrow>
     \<forall>x \<in> set (movedElements s). \<not> isConnectionRef x \<Longrightarrow>
     (\<forall>x \<in> set (movedElements s'). \<not> isConnectionRef x)
     \<and> implicitlyMovedElements s' = implicitlyMovedElements s"
proof (induction n idx es s rule: registerElements.induct)
  case (1 n idx s)
  then show ?case by (simp add: returns_Inr)
next
  case (2 idx e es s)
  then show ?case by simp
next
  case (3 n idx e es s)
  from "3.prems"(1) obtain new mv where
    1: "registerPass idx (e # es) ([], movedElements s) = Inr (new, mv)" and
    2: "registerElements n idx new (s\<lparr>movedElements := mv\<rparr>) = Some (Inr s')"
    by (auto simp: throws_Inr split: sum.splits)
  from registerPass_moved[OF 1 "3.prems"(2)]
  have "\<forall>x \<in> set (movedElements (s\<lparr>movedElements := mv\<rparr>)). \<not> isConnectionRef x" by simp
  from "3.IH"[OF 1 refl 2 this] show ?case by simp
qed

lemma no_connection_in_result:
  assumes "MovedElementsSelector n idx selected = Some (Inr s)"
  shows "\<forall>x \<in> set (movedElements s) \<union> set (implicitlyMovedElements s). \<not> isConnectionRef x"
proof -
  from assms obtain s1 s2 where
    g: "registerElements n idx (newSet (map Some selected)) emptySelector = Some (Inr s1)" and
    p: "pruneMovedElements n idx s1 = Some (Inr s2)" and
    r: "registerAdditionalImplicitlyMovedElements n idx s2 = Some (Inr s)"
    by (rule MovedElementsSelector_phases)
  from registerElements_moved[OF g]
  have 1: "\<forall>x \<in> set (movedElements s1). \<not> isConnectionRef x" "implicitlyMovedElements s1 = []"
    by (simp_all add: emptySelector_def)
  from pruneMovedElements_sets[OF p] 1
  have 2: "\<forall>x \<in> set (movedElements s2) \<union> set (implicitlyMovedElements s2). \<not> isConnectionRef x"
    by auto
  have 3: "\<not> isConnectionRef (Some e)" if "isCanvasElement e \<or> isCanvasPoint e" for e
    using that
    by (auto simp: isConnectionRef_def isCanvasConnection_def isCanvasElement_def isCanvasPoint_def
        split: kind.splits)
  from registerAdditional_sets[OF r]
  have 4: "movedElements s = movedElements s2"
    and 5: "\<And>x. x \<in> set (implicitlyMovedElements s) \<Longrightarrow> x \<in> set (implicitlyMovedElements s2)
          \<or> (\<exists>e. x = Some e \<and> (isCanvasElement e \<or> isCanvasPoint e))"
    by auto
  show ?thesis
  proof
    fix x assume "x \<in> set (movedElements s) \<union> set (implicitlyMovedElements s)"
    with 4 5[of x] have "x \<in> set (movedElements s2) \<union> set (implicitlyMovedElements s2)
        \<or> (\<exists>e. x = Some e \<and> (isCanvasElement e \<or> isCanvasPoint e))"
      by auto
    with 2 3 show "\<not> isConnectionRef x" by blast
  qed
qed

text \<open>The two passes of the expansion for a connection selected alone.\<close>

lemma registerElements_connection:
  assumes "kind c = SCanvasConnection st segs" "segs \<noteq> []"
    and "getById idx (segment_end (last segs)) = Some E" "kind E = SAbsolutePoint"
    and "registerElements n idx [Some c] emptySelector = Some (Inr s1)"
  shows "s1 = emptySelector\<lparr>movedElements := [Some E]\<rparr>"
proof (cases n)
  case 0
  with assms(5) show ?thesis by simp
next
  case (Suc m)
  have pass1: "registerPass idx [Some c] ([], []) = Inr ([Some E], [])"
    using assms(1-3) by (simp add: expandFirst_def expandSecond_def at_last_def setAdd_def)
  have pass2: "registerPass idx [Some E] ([], []) = Inr ([], [Some E])"
    using assms(4) by (simp add: expandFirst_def expandSecond_def setAdd_def)
  from assms(5) Suc pass1
  have 2: "registerElements m idx [Some E] emptySelector = Some (Inr s1)"
    by (simp add: emptySelector_def)
  show ?thesis
  proof (cases m)
    case 0
    with 2 show ?thesis by simp
  next
    case (Suc k)
    with 2 pass2 show ?thesis
      by (simp add: emptySelector_def returns_Inr)
  qed
qed

lemma absolute_point_at_root_not_implicitly_moved:
  assumes "kind E = SAbsolutePoint" "parent E = Some canvas"
    and "findParentByFeature (\<lambda>q. isMarker q \<or> isCanvasElement q) canvas = None"
    and "isElementImplicitlyMoved f idx (Some E) cc s = Some (Inr (b, s'))"
    and "isMovedLookup s (ident canvas) \<noteq> Some True"
  shows "\<not> b"
  using assms
  by (auto simp: isElementImplicitlyMoved_def isParentCanvasImplicitlyMoved_def andThen_Inr
      returns_Inr split: option.splits)

text \<open>
  C7. When a connection whose last segment ends at the absolute point \<open>E\<close> of the root
  canvas is the only selected element, the constructor returns with
  \<open>movedElements = {E}\<close>; and whatever is selected, no connection is in
  \<open>movedElements\<close> or in \<open>implicitlyMovedElements\<close> when the constructor returns.
\<close>

theorem connection_selected_alone:
  assumes "MovedElementsSelector n idx selected = Some (Inr s)"
  shows "(\<forall>x \<in> set (movedElements s) \<union> set (implicitlyMovedElements s). \<not> isConnectionRef x)
     \<and> (selected = [c] \<and> kind c = SCanvasConnection st segs \<and> segs \<noteq> []
          \<and> getById idx (segment_end (last segs)) = Some E \<and> kind E = SAbsolutePoint
          \<and> parent E = Some canvas
          \<and> findParentByFeature (\<lambda>q. isMarker q \<or> isCanvasElement q) canvas = None
        \<longrightarrow> set (movedElements s) = {Some E})"
proof (intro conjI impI)
  show "\<forall>x \<in> set (movedElements s) \<union> set (implicitlyMovedElements s). \<not> isConnectionRef x"
    using assms by (rule no_connection_in_result)
next
  assume a: "selected = [c] \<and> kind c = SCanvasConnection st segs \<and> segs \<noteq> []
          \<and> getById idx (segment_end (last segs)) = Some E \<and> kind E = SAbsolutePoint
          \<and> parent E = Some canvas
          \<and> findParentByFeature (\<lambda>q. isMarker q \<or> isCanvasElement q) canvas = None"
  from assms obtain s1 s2 where
    g: "registerElements n idx (newSet (map Some selected)) emptySelector = Some (Inr s1)" and
    p: "pruneMovedElements n idx s1 = Some (Inr s2)" and
    r: "registerAdditionalImplicitlyMovedElements n idx s2 = Some (Inr s)"
    by (rule MovedElementsSelector_phases)
  from g a have "registerElements n idx [Some c] emptySelector = Some (Inr s1)"
    by (simp add: newSet_def setAdd_def)
  with a have s1: "s1 = emptySelector\<lparr>movedElements := [Some E]\<rparr>"
    by (intro registerElements_connection[of c st segs idx E n s1]) auto
  from p obtain t where
    l: "pruneLoop (isMoved n idx) idx (movedElements s1) s1 = Some (Inr t)" and
    s2: "s2 = t\<lparr>movedElements := fold removeAll (implicitlyMovedElements t) (movedElements t)\<rparr>"
    by (auto simp: pruneMovedElements_def andThen_Inr returns_Inr)
  from l s1 obtain b t1 where
    i: "isElementImplicitlyMoved (isMoved n idx) idx (Some E) True s1 = Some (Inr (b, t1))" and
    t: "t = (if b then t1\<lparr>implicitlyMovedElements := setAdd (Some E) (implicitlyMovedElements t1)\<rparr>
             else t1)"
    by (auto simp: emptySelector_def andThen_Inr returns_Inr)
  from a i s1 have "\<not> b"
    by (intro absolute_point_at_root_not_implicitly_moved[of E canvas _ idx True s1 b t1])
      (auto simp: emptySelector_def)
  with t isElementImplicitlyMoved_frame[OF isMoved_preserves i] s1 s2
  have "movedElements s2 = [Some E]"
    by (simp add: frame_def emptySelector_def)
  with registerAdditional_sets(1)[OF r] show "set (movedElements s) = {Some E}" by simp
qed

theorem connection_selected_alone_witness:
  "\<exists>s. MovedElementsSelector 5 example_index [connection_C] = Some (Inr s)
     \<and> (\<forall>x \<in> set (movedElements s) \<union> set (implicitlyMovedElements s). \<not> isConnectionRef x)
     \<and> set (movedElements s) = {Some point_E}"
proof -
  have "case MovedElementsSelector 5 example_index [connection_C] of
          Some (Inr s) \<Rightarrow> True | _ \<Rightarrow> False"
    by code_simp
  then obtain s where s: "MovedElementsSelector 5 example_index [connection_C] = Some (Inr s)"
    by (auto split: option.splits sum.splits)
  have k: "[connection_C] = [connection_C] \<and> kind connection_C = SCanvasConnection ''p'' [SCanvasSegment ''e'']
      \<and> [SCanvasSegment ''e''] \<noteq> []
      \<and> getById example_index (segment_end (last [SCanvasSegment ''e''])) = Some point_E
      \<and> kind point_E = SAbsolutePoint \<and> parent point_E = Some root_canvas
      \<and> findParentByFeature (\<lambda>q. isMarker q \<or> isCanvasElement q) root_canvas = None"
    by (simp add: example_defs isMarker_def isCanvasElement_def)
  from connection_selected_alone[OF s, of connection_C "''p''" "[SCanvasSegment ''e'']" point_E root_canvas] k s
  show ?thesis by blast
qed

text \<open>
  C1. The segment check at a concrete input: the start \<open>p\<close> of the connection is moved,
  the end \<open>e\<close> of its only segment is not. The relevant points of segment 0 are \<open>p\<close> and
  \<open>e\<close>, their moved states are \<open>[True, False]\<close>, and
  \<^verbatim>\<open>isCanvasConnectionSegmentMoved\<close> returns \<open>True\<close>. With \<open>p\<close> selected, the
  constructor therefore reports the line point \<open>l\<close> on that segment as implicitly moved.
\<close>

theorem segment_moved_with_unmoved_end:
  "relevantPoints ''p'' [SCanvasSegment ''e''] 0 = Some [''p'', ''e'']
   \<and> mapIsMoved (isMoved 5 example_index) False [''p'', ''e'']
        (emptySelector\<lparr>movedElements := [Some point_P]\<rparr>)
      = Some (Inr ([True, False],
          emptySelector\<lparr>movedElements := [Some point_P],
            isMovedLookup := [''p'' \<mapsto> True, ''root'' \<mapsto> False, ''e'' \<mapsto> False]\<rparr>))
   \<and> isCanvasConnectionSegmentMoved (isMoved 5 example_index) ''p'' [SCanvasSegment ''e''] 0 False
        (emptySelector\<lparr>movedElements := [Some point_P]\<rparr>)
      = Some (Inr (True,
          emptySelector\<lparr>movedElements := [Some point_P],
            isMovedLookup := [''p'' \<mapsto> True, ''root'' \<mapsto> False, ''e'' \<mapsto> False]\<rparr>))
   \<and> MovedElementsSelector 5 line_point_index [point_P]
      = Some (Inr \<lparr>movedElements = [Some point_P],
          implicitlyMovedElements = [Some shape_S, Some point_L], hasConflict = False,
          isMovedLookup = [''root'' \<mapsto> False, ''p'' \<mapsto> True, ''e'' \<mapsto> False]\<rparr>)"
  by (simp add: selector_defs example_defs eval_nat_numeral)

text \<open>
  The lookup of \<^verbatim>\<open>isMoved\<close> stays sound for a moved point, an unmoved absolute
  point and its canvas through the moved checks and the pruning pass.
\<close>

lemma anchored_canvas:
  assumes "anchored idx m q canvas"
  shows "getById idx (ident canvas) = Some canvas" "\<not> isCanvasElement canvas" "\<not> isCanvasPoint canvas"
proof -
  from assms obtain Q where q: "getById idx q = Some Q" "kind Q = SAbsolutePoint" "parent Q = Some canvas"
    and ci: "\<forall>k e. getById idx k = Some e \<longrightarrow> canvasIndexed idx e"
    by (auto simp: anchored_def)
  from ci q(1) have "canvasIndexed idx Q" by blast
  with q(2,3) show "getById idx (ident canvas) = Some canvas" "\<not> isCanvasElement canvas"
    "\<not> isCanvasPoint canvas"
    by (simp_all add: canvasIndexed_def parentIndexed_def)
qed

lemma lookupSound_canvas_update:
  assumes a: "anchored idx m q canvas" and l: "lookupSound idx moved m q canvas s"
    and p: "getById idx (ident cv) = Some cv" "\<not> isCanvasPoint cv"
    and b: "cv = canvas \<longrightarrow> \<not> b"
  shows "lookupSound idx moved m q canvas (s\<lparr>isMovedLookup := (isMovedLookup s)(ident cv \<mapsto> b)\<rparr>)"
proof -
  from a obtain M Q where M: "getById idx m = Some M" "isCanvasPoint M"
    and Q: "getById idx q = Some Q" "kind Q = SAbsolutePoint"
    by (auto simp: anchored_def)
  from Q(2) have Qp: "isCanvasPoint Q" by (simp add: isCanvasPoint_def)
  from M p have 1: "ident cv \<noteq> m" by auto
  from Q(1) Qp p have 2: "ident cv \<noteq> q" by auto
  have 3: "ident cv = ident canvas \<longrightarrow> cv = canvas"
    using anchored_canvas(1)[OF a] p(1) by auto
  from l 1 2 3 b show ?thesis
    by (auto simp: lookupSound_def)
qed

lemma lookupSound_conflict:
  "lookupSound idx moved m q canvas s \<Longrightarrow> lookupSound idx moved m q canvas (s\<lparr>hasConflict := True\<rparr>)"
  by (simp add: lookupSound_def)

lemma soundIsMovedD:
  "soundIsMoved idx moved m q canvas f \<Longrightarrow> lookupSound idx moved m q canvas s \<Longrightarrow>
     f i cc s = Some (Inr (b, s')) \<Longrightarrow>
     lookupSound idx moved m q canvas s'
     \<and> (i = m \<longrightarrow> getById idx m \<in> set moved \<longrightarrow> b)
     \<and> (i = q \<longrightarrow> getById idx q \<notin> set moved \<longrightarrow> \<not> b)"
  unfolding soundIsMoved_def by blast

lemma mapIsMoved_sound:
  assumes f: "soundIsMoved idx moved m q canvas f"
  shows "lookupSound idx moved m q canvas s \<Longrightarrow> mapIsMoved f cc ps s = Some (Inr (bs, s')) \<Longrightarrow>
     lookupSound idx moved m q canvas s'
     \<and> (m \<in> set ps \<longrightarrow> getById idx m \<in> set moved \<longrightarrow> True \<in> set bs)
     \<and> (q \<in> set ps \<longrightarrow> getById idx q \<notin> set moved \<longrightarrow> False \<in> set bs)"
proof (induction ps arbitrary: s bs)
  case Nil
  then show ?case by (simp add: returns_Inr)
next
  case (Cons p ps)
  from Cons.prems(2) obtain b s1 rest where
    1: "f p cc s = Some (Inr (b, s1))" and 2: "mapIsMoved f cc ps s1 = Some (Inr (rest, s'))"
    and bs: "bs = b # rest"
    by (auto simp: andThen_Inr returns_Inr)
  from soundIsMovedD[OF f Cons.prems(1) 1] have
    l1: "lookupSound idx moved m q canvas s1"
    and bm: "p = m \<Longrightarrow> getById idx m \<in> set moved \<Longrightarrow> b"
    and bq: "p = q \<Longrightarrow> getById idx q \<notin> set moved \<Longrightarrow> \<not> b"
    by blast+
  from Cons.IH[OF l1 2] bm bq bs show ?case by auto
qed

lemma isCanvasConnectionSegmentMoved_sound:
  assumes f: "soundIsMoved idx moved m q canvas f"
    and l: "lookupSound idx moved m q canvas s"
    and r: "isCanvasConnectionSegmentMoved f st sg i cc s = Some (Inr (b, s'))"
  shows "lookupSound idx moved m q canvas s'
     \<and> (cc \<longrightarrow> (\<forall>pts. relevantPoints st sg i = Some pts \<longrightarrow> m \<in> set pts \<longrightarrow> q \<in> set pts \<longrightarrow>
            getById idx m \<in> set moved \<longrightarrow> getById idx q \<notin> set moved \<longrightarrow> hasConflict s'))"
proof -
  from r obtain pts where pts: "relevantPoints st sg i = Some pts"
    by (auto simp: isCanvasConnectionSegmentMoved_def throws_Inr split: option.splits)
  with r obtain bs s1 where
    1: "mapIsMoved f cc pts s = Some (Inr (bs, s1))" and
    2: "(if cc \<and> list_ex (\<lambda>moved. moved) bs \<and> list_ex (\<lambda>moved. \<not> moved) bs
         then returns (list_ex (\<lambda>moved. moved) bs, s1\<lparr>hasConflict := True\<rparr>)
         else returns (list_ex (\<lambda>moved. moved) bs, s1)) = Some (Inr (b, s'))"
    by (auto simp: isCanvasConnectionSegmentMoved_def andThen_Inr Let_def)
  from mapIsMoved_sound[OF f l 1] have
    l1: "lookupSound idx moved m q canvas s1"
    and t: "m \<in> set pts \<Longrightarrow> getById idx m \<in> set moved \<Longrightarrow> True \<in> set bs"
    and u: "q \<in> set pts \<Longrightarrow> getById idx q \<notin> set moved \<Longrightarrow> False \<in> set bs"
    by blast+
  from 2 l1 have "lookupSound idx moved m q canvas s'"
    by (auto simp: returns_Inr lookupSound_conflict split: if_splits)
  moreover
  have "hasConflict s'" if "cc" "m \<in> set pts" "q \<in> set pts" "getById idx m \<in> set moved"
    "getById idx q \<notin> set moved"
  proof -
    from t that have "list_ex (\<lambda>moved. moved) bs" by (auto simp: list_ex_iff)
    moreover from u that have "list_ex (\<lambda>moved. \<not> moved) bs" by (auto simp: list_ex_iff)
    ultimately show ?thesis using 2 that(1) by (auto simp: returns_Inr)
  qed
  ultimately show ?thesis using pts by auto
qed

lemma isParentCanvasImplicitlyMoved_sound:
  assumes a: "anchored idx m q canvas"
    and f: "soundIsMoved idx moved m q canvas f"
    and l: "lookupSound idx moved m q canvas s"
    and p: "parentIndexed idx e"
    and r: "isParentCanvasImplicitlyMoved f e cc s = Some (Inr (b, s'))"
  shows "lookupSound idx moved m q canvas s' \<and> (parent e = Some canvas \<longrightarrow> \<not> b)"
proof -
  from r obtain cv where cv: "parent e = Some cv"
    by (auto simp: isParentCanvasImplicitlyMoved_def throws_Inr split: option.splits)
  with p have cvi: "getById idx (ident cv) = Some cv" "\<not> isCanvasPoint cv"
    by (simp_all add: parentIndexed_def)
  show ?thesis
  proof (cases "isMovedLookup s (ident cv)")
    case (Some b0)
    with r cv have "b = b0" "s' = s"
      by (simp_all add: isParentCanvasImplicitlyMoved_def returns_Inr)
    with l Some cv show ?thesis by (auto simp: lookupSound_def)
  next
    case None
    define inner where "inner =
      (case findParentByFeature (\<lambda>p. isMarker p \<or> isCanvasElement p) cv of
         None \<Rightarrow> returns (False, s)
       | Some parentCanvasContent \<Rightarrow>
           (case kind parentCanvasContent of
              SCanvasElement p \<Rightarrow> f (ident parentCanvasContent) cc s
            | SMarker mpos pid \<Rightarrow>
                (case parent parentCanvasContent of
                   None \<Rightarrow> throws TypeError
                 | Some connection \<Rightarrow>
                     (case kind connection of
                        SCanvasConnection cstart csegments \<Rightarrow>
                          isCanvasConnectionSegmentMoved f cstart csegments
                            (if mpos = ''start'' then 0 else int (length csegments) - 1) cc s
                      | _ \<Rightarrow> throws TypeError))
            | _ \<Rightarrow> returns (False, s)))"
    from r cv None obtain b1 s1 where
      1: "inner = Some (Inr (b1, s1))" and
      2: "b = b1" "s' = s1\<lparr>isMovedLookup := (isMovedLookup s1)(ident cv \<mapsto> b1)\<rparr>"
      by (auto simp: isParentCanvasImplicitlyMoved_def andThen_Inr returns_Inr inner_def)
    have l1: "lookupSound idx moved m q canvas s1"
      using 1 l soundIsMovedD[OF f l] isCanvasConnectionSegmentMoved_sound[OF f l]
      by (auto simp: inner_def returns_Inr throws_Inr split: option.splits kind.splits)
    have nb: "cv = canvas \<longrightarrow> \<not> b1"
    proof
      assume "cv = canvas"
      with a have "findParentByFeature (\<lambda>p. isMarker p \<or> isCanvasElement p) cv = None"
        by (simp add: anchored_def)
      with 1 show "\<not> b1" by (simp add: inner_def returns_Inr)
    qed
    from lookupSound_canvas_update[OF a l1 cvi nb] 2 nb cv show ?thesis by auto
  qed
qed

lemma isElementImplicitlyMoved_sound:
  assumes a: "anchored idx m q canvas"
    and f: "soundIsMoved idx moved m q canvas f"
    and l: "lookupSound idx moved m q canvas s"
    and p: "\<forall>x. e = Some x \<longrightarrow> canvasIndexed idx x"
    and r: "isElementImplicitlyMoved f idx e cc s = Some (Inr (b, s'))"
  shows "lookupSound idx moved m q canvas s'
     \<and> (e = getById idx q \<longrightarrow> \<not> b)
     \<and> (cc \<longrightarrow> (\<forall>x c lpos st sg pts. e = Some x \<longrightarrow> kind x = SLinePoint c lpos \<longrightarrow>
           map_option kind (getById idx c) = Some (SCanvasConnection st sg) \<longrightarrow>
           relevantPoints st sg (calcSegmentIndex idx lpos (length sg)) = Some pts \<longrightarrow>
           m \<in> set pts \<longrightarrow> q \<in> set pts \<longrightarrow>
           getById idx m \<in> set moved \<longrightarrow> getById idx q \<notin> set moved \<longrightarrow> hasConflict s'))"
proof (cases e)
  case None
  with r l a show ?thesis
    by (auto simp: isElementImplicitlyMoved_def returns_Inr anchored_def)
next
  case (Some x)
  from a obtain Q where Q: "getById idx q = Some Q" "kind Q = SAbsolutePoint" "parent Q = Some canvas"
    by (auto simp: anchored_def)
  show ?thesis
  proof (cases "kind x")
    case (SCanvasElement po)
    show ?thesis
    proof (cases po)
      case None
      with SCanvasElement p Some have pi: "parentIndexed idx x" by (simp add: canvasIndexed_def)
      from r Some SCanvasElement None
      have "isParentCanvasImplicitlyMoved f x cc s = Some (Inr (b, s'))"
        by (simp add: isElementImplicitlyMoved_def)
      from isParentCanvasImplicitlyMoved_sound[OF a f l pi this] Some SCanvasElement Q
      show ?thesis by auto
    next
      case (Some p')
      with r \<open>e = Some x\<close> SCanvasElement have "f p' cc s = Some (Inr (b, s'))"
        by (simp add: isElementImplicitlyMoved_def)
      from soundIsMovedD[OF f l this] \<open>e = Some x\<close> SCanvasElement Q show ?thesis by auto
    qed
  next
    case SAbsolutePoint
    with p Some have pi: "parentIndexed idx x" by (simp add: canvasIndexed_def)
    from r Some SAbsolutePoint
    have "isParentCanvasImplicitlyMoved f x cc s = Some (Inr (b, s'))"
      by (simp add: isElementImplicitlyMoved_def)
    from isParentCanvasImplicitlyMoved_sound[OF a f l pi this] Some SAbsolutePoint Q
    show ?thesis by auto
  next
    case (SRelativePoint tgt ed)
    with r Some obtain j where "f j cc s = Some (Inr (b, s'))"
      by (auto simp: isElementImplicitlyMoved_def throws_Inr split: option.splits kind.splits)
    from soundIsMovedD[OF f l this] Some SRelativePoint Q show ?thesis by auto
  next
    case (SLinePoint c lpos)
    show ?thesis
    proof (cases "map_option kind (getById idx c)")
      case None
      with r Some SLinePoint l Q show ?thesis
        by (auto simp: isElementImplicitlyMoved_def returns_Inr)
    next
      case (Some k)
      show ?thesis
      proof (cases k)
        case (SCanvasElement po)
        with r \<open>e = Some x\<close> SLinePoint Some have "f c cc s = Some (Inr (b, s'))"
          by (simp add: isElementImplicitlyMoved_def)
        from soundIsMovedD[OF f l this] \<open>e = Some x\<close> SLinePoint Some SCanvasElement Q
        show ?thesis by auto
      next
        case (SCanvasConnection st sg)
        with r \<open>e = Some x\<close> SLinePoint Some
        have "isCanvasConnectionSegmentMoved f st sg (calcSegmentIndex idx lpos (length sg)) cc s
            = Some (Inr (b, s'))"
          by (simp add: isElementImplicitlyMoved_def)
        from isCanvasConnectionSegmentMoved_sound[OF f l this]
          \<open>e = Some x\<close> SLinePoint Some SCanvasConnection Q
        show ?thesis by auto
      qed (use r \<open>e = Some x\<close> SLinePoint Some l Q in
            \<open>auto simp: isElementImplicitlyMoved_def returns_Inr\<close>)
    qed
  qed (use r Some l Q in \<open>auto simp: isElementImplicitlyMoved_def returns_Inr\<close>)
qed

lemma isMoved_sound:
  assumes a: "anchored idx m q canvas"
  shows "soundIsMoved idx moved m q canvas (isMoved n idx)"
proof (induction n)
  case 0
  show ?case by (simp add: soundIsMoved_def)
next
  case (Suc n)
  show ?case
    unfolding soundIsMoved_def
  proof (intro allI impI)
    fix i cc s b s'
    assume l: "lookupSound idx moved m q canvas s"
      and r: "isMoved (Suc n) idx i cc s = Some (Inr (b, s'))"
    show "lookupSound idx moved m q canvas s'
        \<and> (i = m \<longrightarrow> getById idx m \<in> set moved \<longrightarrow> b)
        \<and> (i = q \<longrightarrow> getById idx q \<notin> set moved \<longrightarrow> \<not> b)"
    proof (cases "isMovedLookup s i")
      case (Some b0)
      with r have "b = b0" "s' = s" by (simp_all add: returns_Inr)
      with l Some show ?thesis by (auto simp: lookupSound_def)
    next
      case None
      with r obtain E where E: "getById idx i = Some E" "isCanvasElement E \<or> isCanvasPoint E"
        by (auto simp: throws_Inr split: option.splits if_splits)
      with r None obtain s1 where
        1: "isElementMoved (isMoved n idx) idx E cc s = Some (Inr (b, s1))" and
        2: "s' = s1\<lparr>isMovedLookup := (isMovedLookup s1)(i \<mapsto> b)\<rparr>"
        by (auto simp: andThen_Inr returns_Inr)
      from a E(1) have ci: "canvasIndexed idx E" by (auto simp: anchored_def)
      from l have me: "movedElements s = moved" by (simp add: lookupSound_def)
      have l1: "lookupSound idx moved m q canvas s1"
        and bm: "i = m \<Longrightarrow> getById idx m \<in> set moved \<Longrightarrow> b"
        and bq: "i = q \<Longrightarrow> getById idx q \<notin> set moved \<Longrightarrow> \<not> b"
      proof -
        show "lookupSound idx moved m q canvas s1"
        proof (cases "Some E \<in> set (movedElements s)")
          case True
          with 1 l show ?thesis by (simp add: isElementMoved_def returns_Inr)
        next
          case False
          with 1 have "isElementImplicitlyMoved (isMoved n idx) idx (Some E) cc s = Some (Inr (b, s1))"
            by (simp add: isElementMoved_def)
          from isElementImplicitlyMoved_sound[OF a Suc l _ this] ci show ?thesis by simp
        qed
        show "b" if "i = m" "getById idx m \<in> set moved"
          using that 1 E me by (simp add: isElementMoved_def returns_Inr)
        show "\<not> b" if "i = q" "getById idx q \<notin> set moved"
        proof -
          from that E me have "Some E \<notin> set (movedElements s)" by simp
          with 1 have "isElementImplicitlyMoved (isMoved n idx) idx (Some E) cc s = Some (Inr (b, s1))"
            by (simp add: isElementMoved_def)
          from isElementImplicitlyMoved_sound[OF a Suc l _ this] ci that E show ?thesis by simp
        qed
      qed
      from anchored_canvas[OF a] E have ic: "i \<noteq> ident canvas" by auto
      from l1 ic bm bq 2 show ?thesis
        by (auto simp: lookupSound_def)
    qed
  qed
qed


lemma pruneLoop_sound:
  assumes a: "anchored idx m q canvas"
    and f: "soundIsMoved idx moved m q canvas f" and pf: "preserves f"
  shows "lookupSound idx moved m q canvas s \<Longrightarrow>
     \<forall>x \<in> set es. \<forall>e. x = Some e \<longrightarrow> canvasIndexed idx e \<Longrightarrow>
     pruneLoop f idx es s = Some (Inr s') \<Longrightarrow>
     lookupSound idx moved m q canvas s'
     \<and> (hasConflict s \<longrightarrow> hasConflict s')
     \<and> (getById idx q \<notin> set (implicitlyMovedElements s) \<longrightarrow>
          getById idx q \<notin> set (implicitlyMovedElements s'))
     \<and> (Some L \<in> set es \<longrightarrow> kind L = SLinePoint c lpos \<longrightarrow>
          map_option kind (getById idx c) = Some (SCanvasConnection st sg) \<longrightarrow>
          relevantPoints st sg (calcSegmentIndex idx lpos (length sg)) = Some pts \<longrightarrow>
          m \<in> set pts \<longrightarrow> q \<in> set pts \<longrightarrow>
          getById idx m \<in> set moved \<longrightarrow> getById idx q \<notin> set moved \<longrightarrow> hasConflict s')"
proof (induction es arbitrary: s)
  case Nil
  then show ?case by (simp add: returns_Inr)
next
  case (Cons e es)
  from Cons.prems(3) obtain b s1 where
    1: "isElementImplicitlyMoved f idx e True s = Some (Inr (b, s1))" and
    2: "pruneLoop f idx es
          (if b then s1\<lparr>implicitlyMovedElements := setAdd e (implicitlyMovedElements s1)\<rparr> else s1)
        = Some (Inr s')"
    by (auto simp: andThen_Inr)
  define s2 where
    "s2 = (if b then s1\<lparr>implicitlyMovedElements := setAdd e (implicitlyMovedElements s1)\<rparr> else s1)"
  from Cons.prems(2) have ce: "\<forall>x. e = Some x \<longrightarrow> canvasIndexed idx x" by simp
  from isElementImplicitlyMoved_sound[OF a f Cons.prems(1) ce 1] have
    l1: "lookupSound idx moved m q canvas s1"
    and nq: "e = getById idx q \<Longrightarrow> \<not> b"
    and cf: "\<And>x c lpos st sg pts. e = Some x \<Longrightarrow> kind x = SLinePoint c lpos \<Longrightarrow>
           map_option kind (getById idx c) = Some (SCanvasConnection st sg) \<Longrightarrow>
           relevantPoints st sg (calcSegmentIndex idx lpos (length sg)) = Some pts \<Longrightarrow>
           m \<in> set pts \<Longrightarrow> q \<in> set pts \<Longrightarrow>
           getById idx m \<in> set moved \<Longrightarrow> getById idx q \<notin> set moved \<Longrightarrow> hasConflict s1"
    by blast+
  from isElementImplicitlyMoved_frame[OF pf 1] have fr: "frame s s1" .
  from l1 have l2: "lookupSound idx moved m q canvas s2"
    by (simp add: s2_def lookupSound_def)
  from Cons.prems(2) have ces: "\<forall>x \<in> set es. \<forall>e. x = Some e \<longrightarrow> canvasIndexed idx e" by simp
  from 2 have 3: "pruneLoop f idx es s2 = Some (Inr s')" by (simp add: s2_def)
  note IH = Cons.IH[OF l2 ces 3]
  have h2: "hasConflict s2 = hasConflict s1" by (simp add: s2_def)
  have i2: "getById idx q \<notin> set (implicitlyMovedElements s) \<Longrightarrow>
      getById idx q \<notin> set (implicitlyMovedElements s2)"
    using fr nq by (auto simp: s2_def frame_def set_setAdd)
  have "hasConflict s \<longrightarrow> hasConflict s'"
    using IH fr h2 by (simp add: frame_def)
  moreover have "getById idx q \<notin> set (implicitlyMovedElements s) \<longrightarrow>
          getById idx q \<notin> set (implicitlyMovedElements s')"
    using IH i2 by blast
  moreover have "hasConflict s'"
    if "Some L \<in> set (e # es)" "kind L = SLinePoint c lpos"
      "map_option kind (getById idx c) = Some (SCanvasConnection st sg)"
      "relevantPoints st sg (calcSegmentIndex idx lpos (length sg)) = Some pts"
      "m \<in> set pts" "q \<in> set pts" "getById idx m \<in> set moved" "getById idx q \<notin> set moved"
  proof (cases "e = Some L")
    case True
    from cf[OF True that(2-8)] h2 IH show ?thesis by simp
  next
    case False
    with that(1) have "Some L \<in> set es" by simp
    with IH that(2-8) show ?thesis by blast
  qed
  ultimately show ?case using IH by blast
qed

lemma registerAdditionalLoop_conflict:
  "preserves f \<Longrightarrow> registerAdditionalLoop f idx es s = Some (Inr s') \<Longrightarrow>
     hasConflict s \<Longrightarrow> hasConflict s'"
proof (induction es arbitrary: s)
  case Nil
  then show ?case by (simp add: returns_Inr)
next
  case (Cons e es)
  show ?case
  proof (cases "(isCanvasElement e \<or> isCanvasPoint e) \<and> Some e \<notin> set (movedElements s)")
    case False
    with Cons.prems(2) have "registerAdditionalLoop f idx es s = Some (Inr s')"
      by (auto split: if_splits)
    from Cons.IH[OF Cons.prems(1) this Cons.prems(3)] show ?thesis .
  next
    case True
    with Cons.prems(2) obtain b s1 where
      1: "isElementImplicitlyMoved f idx (Some e) False s = Some (Inr (b, s1))" and
      2: "registerAdditionalLoop f idx es
            (if b then s1\<lparr>implicitlyMovedElements := setAdd (Some e) (implicitlyMovedElements s1)\<rparr>
             else s1) = Some (Inr s')"
      by (auto simp: andThen_Inr)
    from isElementImplicitlyMoved_frame[OF Cons.prems(1) 1] Cons.prems(3)
    have "hasConflict (if b then s1\<lparr>implicitlyMovedElements := setAdd (Some e) (implicitlyMovedElements s1)\<rparr>
             else s1)"
      by (simp add: frame_def)
    from Cons.IH[OF Cons.prems(1) 2 this] show ?thesis .
  qed
qed

lemma set_newSet: "set (newSet xs) = set xs"
proof -
  have "set (fold setAdd xs acc) = set xs \<union> set acc" for acc :: "'a list"
    by (induction xs arbitrary: acc) (auto simp: set_setAdd)
  then show ?thesis by (simp add: newSet_def)
qed

lemma registerPass_gathers:
  assumes g: "\<forall>k. P (getById idx k)"
  shows "registerPass idx es (new, mv) = Inr (new', mv') \<Longrightarrow>
     \<forall>x \<in> set es \<union> set new \<union> set mv. P x \<Longrightarrow>
     (\<forall>x \<in> set new' \<union> set mv'. P x) \<and> set mv \<subseteq> set mv'
     \<and> (\<forall>L c lpos. Some L \<in> set es \<longrightarrow> kind L = SLinePoint c lpos \<longrightarrow> Some L \<in> set mv')"
proof (induction es arbitrary: new mv)
  case Nil
  then show ?case by simp
next
  case (Cons e es)
  from Cons.prems(1) obtain new1 mv1 where
    1: "expandFirst idx e (new, mv) = Inr (new1, mv1)" and
    2: "registerPass idx es (expandSecond idx e new1, mv1) = Inr (new', mv')"
    by (auto split: sum.splits)
  from Cons.prems(2) have Pe: "P e" and Pn: "\<forall>x \<in> set new. P x" and Pm: "\<forall>x \<in> set mv. P x"
    and Pes: "\<forall>x \<in> set es. P x"
    by simp_all
  from 1 have f1: "(mv1 = mv \<or> mv1 = setAdd e mv)
      \<and> (new1 = new \<or> (\<exists>k. new1 = setAdd (getById idx k) new))"
    by (auto simp: expandFirst_def split: option.splits kind.splits)
  from 1 have f2: "\<And>L c lpos. e = Some L \<Longrightarrow> kind L = SLinePoint c lpos \<Longrightarrow> mv1 = setAdd e mv"
    by (auto simp: expandFirst_def)
  have f3: "expandSecond idx e new1 = new1 \<or> (\<exists>k. expandSecond idx e new1 = setAdd (getById idx k) new1)"
    by (auto simp: expandSecond_def Let_def split: option.splits kind.splits)
  from f1 Pe Pm have Pm1: "\<forall>x \<in> set mv1. P x" by (auto simp: set_setAdd)
  from f1 Pn g have Pn1: "\<forall>x \<in> set new1. P x" by (auto simp: set_setAdd)
  from f3 Pn1 g have Pn2: "\<forall>x \<in> set (expandSecond idx e new1). P x" by (auto simp: set_setAdd)
  from Pes Pn2 Pm1
  have "\<forall>x \<in> set es \<union> set (expandSecond idx e new1) \<union> set mv1. P x" by auto
  note IH = Cons.IH[OF 2 this]
  from f1 have sub: "set mv \<subseteq> set mv1" by (auto simp: set_setAdd)
  have "Some L \<in> set mv'" if "Some L \<in> set (e # es)" "kind L = SLinePoint c lpos" for L c lpos
  proof (cases "e = Some L")
    case True
    from f2[OF True that(2)] True have "Some L \<in> set mv1" by (simp add: set_setAdd)
    with IH show ?thesis by auto
  next
    case False
    with that IH show ?thesis by auto
  qed
  with IH sub show ?case by blast
qed

lemma registerElements_gathers:
  "registerElements n idx es s = Some (Inr s') \<Longrightarrow> \<forall>k. P (getById idx k) \<Longrightarrow>
     \<forall>x \<in> set es \<union> set (movedElements s). P x \<Longrightarrow>
     (\<forall>x \<in> set (movedElements s'). P x) \<and> set (movedElements s) \<subseteq> set (movedElements s')
     \<and> (\<forall>L c lpos. Some L \<in> set es \<longrightarrow> kind L = SLinePoint c lpos \<longrightarrow>
           Some L \<in> set (movedElements s'))
     \<and> isMovedLookup s' = isMovedLookup s \<and> hasConflict s' = hasConflict s
     \<and> implicitlyMovedElements s' = implicitlyMovedElements s"
proof (induction n idx es s rule: registerElements.induct)
  case (1 n idx s)
  then show ?case by (simp add: returns_Inr)
next
  case (2 idx e es s)
  then show ?case by simp
next
  case (3 n idx e es s)
  from "3.prems"(1) obtain new mv where
    1: "registerPass idx (e # es) ([], movedElements s) = Inr (new, mv)" and
    2: "registerElements n idx new (s\<lparr>movedElements := mv\<rparr>) = Some (Inr s')"
    by (auto simp: throws_Inr split: sum.splits)
  note g = "3.prems"(2)
  from "3.prems"(3) have "\<forall>x \<in> set (e # es) \<union> set [] \<union> set (movedElements s). P x" by simp
  from registerPass_gathers[of P, OF g 1 this] have
    p1: "\<forall>x \<in> set new \<union> set mv. P x" and p2: "set (movedElements s) \<subseteq> set mv"
    and p3: "\<And>L c lpos. Some L \<in> set (e # es) \<Longrightarrow> kind L = SLinePoint c lpos \<Longrightarrow> Some L \<in> set mv"
    by blast+
  from p1 have "\<forall>x \<in> set new \<union> set (movedElements (s\<lparr>movedElements := mv\<rparr>)). P x" by simp
  from "3.IH"[OF 1 refl 2 g this] p2 p3 show ?case by (simp add: subset_iff)
qed

lemma selected_line_point_conflict:
  assumes run: "MovedElementsSelector n idx selected = Some (Inr s)"
    and ci: "canvasesIndexed idx selected"
    and L: "L \<in> set selected" "kind L = SLinePoint c lpos"
    and C: "getById idx c = Some C" "kind C = SCanvasConnection st sg"
    and pts: "relevantPoints st sg (calcSegmentIndex idx lpos (length sg)) = Some pts"
    and M: "m \<in> set pts" "getById idx m = Some M" "isCanvasPoint M" "Some M \<in> set (movedElements s)"
    and Q: "q \<in> set pts" "getById idx q = Some Q" "kind Q = SAbsolutePoint" "parent Q = Some canvas"
      "findParentByFeature (\<lambda>p. isMarker p \<or> isCanvasElement p) canvas = None"
      "Some Q \<notin> set (movedElements s)"
  shows "hasConflict s"
proof -
  from run obtain s1 s2 where
    g: "registerElements n idx (newSet (map Some selected)) emptySelector = Some (Inr s1)" and
    p: "pruneMovedElements n idx s1 = Some (Inr s2)" and
    r: "registerAdditionalImplicitlyMovedElements n idx s2 = Some (Inr s)"
    by (rule MovedElementsSelector_phases)
  define P where "P = (\<lambda>x :: elem. \<forall>e. x = Some e \<longrightarrow> canvasIndexed idx e)"
  from ci have all: "\<forall>k e. getById idx k = Some e \<longrightarrow> canvasIndexed idx e"
    and sel: "\<forall>e \<in> set selected. canvasIndexed idx e"
    by (simp_all add: canvasesIndexed_def list_all_iff)
  from all have Pg: "\<forall>k. P (getById idx k)" by (simp add: P_def)
  from sel have "\<forall>x \<in> set (newSet (map Some selected)) \<union> set (movedElements emptySelector). P x"
    by (auto simp: set_newSet P_def emptySelector_def)
  from registerElements_gathers[of _ _ _ _ _ P, OF g Pg this] L have
    P1: "\<forall>x \<in> set (movedElements s1). \<forall>e. x = Some e \<longrightarrow> canvasIndexed idx e"
    and L1: "Some L \<in> set (movedElements s1)"
    and k1: "isMovedLookup s1 = Map.empty" "\<not> hasConflict s1" "implicitlyMovedElements s1 = []"
    by (auto simp: set_newSet P_def emptySelector_def)
  from M(2,3) Q(2-5) all have a: "anchored idx m q canvas"
    by (auto simp: anchored_def)
  define moved where "moved = movedElements s1"
  from k1 have l1: "lookupSound idx moved m q canvas s1"
    by (simp add: lookupSound_def moved_def)
  from p obtain t where
    l: "pruneLoop (isMoved n idx) idx (movedElements s1) s1 = Some (Inr t)" and
    s2: "s2 = t\<lparr>movedElements := fold removeAll (implicitlyMovedElements t) (movedElements t)\<rparr>"
    by (auto simp: pruneMovedElements_def andThen_Inr returns_Inr)
  from C have Ck: "map_option kind (getById idx c) = Some (SCanvasConnection st sg)" by simp
  from pruneLoop_sound[OF a isMoved_sound[OF a] isMoved_preserves l1 P1 l,
      of L c lpos st sg pts] L1 L(2) Ck pts M(1) Q(1) k1(3)
  have t1: "getById idx q \<notin> set (implicitlyMovedElements t)"
    and t2: "getById idx m \<in> set moved \<Longrightarrow> getById idx q \<notin> set moved \<Longrightarrow> hasConflict t"
    and t3: "movedElements t = moved"
    by (auto simp: lookupSound_def)
  from registerAdditional_sets(1)[OF r] s2 t3
  have fin: "set (movedElements s) = set moved - set (implicitlyMovedElements t)"
    by (simp add: set_fold_removeAll)
  from fin M(4) M(2) have "getById idx m \<in> set moved" by simp
  moreover from fin Q(6) Q(2) t1 have "getById idx q \<notin> set moved" by auto
  ultimately have "hasConflict t" by (rule t2)
  with s2 have "hasConflict s2" by simp
  with r show ?thesis
    unfolding registerAdditionalImplicitlyMovedElements_def
    by (rule registerAdditionalLoop_conflict[OF isMoved_preserves])
qed

lemma segment_check_sets_hasConflict:
  assumes "relevantPoints cstart csegments segmentIndex = Some points"
    and "mapIsMoved this_isMoved True points s0 = Some (Inr (isMovedList, s'))"
    and "True \<in> set isMovedList" and "False \<in> set isMovedList"
  shows "\<exists>b. isCanvasConnectionSegmentMoved this_isMoved cstart csegments segmentIndex True s0
            = Some (Inr (b, s'\<lparr>hasConflict := True\<rparr>))"
proof -
  from assms(3) have 1: "list_ex (\<lambda>moved. moved) isMovedList"
    by (auto simp: list_ex_iff)
  from assms(4) have 2: "list_ex (\<lambda>moved. \<not> moved) isMovedList"
    by (auto simp: list_ex_iff)
  from assms(1,2) 1 2
  have "isCanvasConnectionSegmentMoved this_isMoved cstart csegments segmentIndex True s0
          = Some (Inr (True, s'\<lparr>hasConflict := True\<rparr>))"
    by (simp add: isCanvasConnectionSegmentMoved_def andThen_def returns_def)
  then show ?thesis by blast
qed

text \<open>
  C4, as the code has it. When \<^verbatim>\<open>isCanvasConnectionSegmentMoved\<close> is evaluated with
  consistency checks and the moved states of the relevant points of the segment hold both
  a moved and an unmoved point, it returns with \<open>hasConflict\<close> set. The constructor
  returns with \<open>hasConflict\<close> set when a line point on the segment is among the selected
  elements, so that the pruning pass evaluates the segment, and of the relevant points of
  the segment a point \<open>M\<close> is in the final \<open>movedElements\<close> and an absolute point \<open>Q\<close>, of
  a canvas outside every canvas element and marker, is not; the canvases of the diagram
  are indexed under their ids.
\<close>

theorem partial_move_sets_hasConflict:
  "(relevantPoints cstart csegments segmentIndex = Some points
      \<longrightarrow> mapIsMoved this_isMoved True points s0 = Some (Inr (isMovedList, s'))
      \<longrightarrow> True \<in> set isMovedList \<longrightarrow> False \<in> set isMovedList
      \<longrightarrow> (\<exists>b. isCanvasConnectionSegmentMoved this_isMoved cstart csegments segmentIndex True s0
                = Some (Inr (b, s'\<lparr>hasConflict := True\<rparr>))))
   \<and> (MovedElementsSelector n idx selected = Some (Inr s)
      \<longrightarrow> canvasesIndexed idx selected
      \<longrightarrow> L \<in> set selected \<longrightarrow> kind L = SLinePoint c lpos
      \<longrightarrow> getById idx c = Some C \<longrightarrow> kind C = SCanvasConnection st sg
      \<longrightarrow> relevantPoints st sg (calcSegmentIndex idx lpos (length sg)) = Some pts
      \<longrightarrow> m \<in> set pts \<longrightarrow> getById idx m = Some M \<longrightarrow> isCanvasPoint M
      \<longrightarrow> Some M \<in> set (movedElements s)
      \<longrightarrow> q \<in> set pts \<longrightarrow> getById idx q = Some Q \<longrightarrow> kind Q = SAbsolutePoint
      \<longrightarrow> parent Q = Some canvas
      \<longrightarrow> findParentByFeature (\<lambda>p. isMarker p \<or> isCanvasElement p) canvas = None
      \<longrightarrow> Some Q \<notin> set (movedElements s)
      \<longrightarrow> hasConflict s)"
proof (intro conjI impI)
  assume "relevantPoints cstart csegments segmentIndex = Some points"
    "mapIsMoved this_isMoved True points s0 = Some (Inr (isMovedList, s'))"
    "True \<in> set isMovedList" "False \<in> set isMovedList"
  then show "\<exists>b. isCanvasConnectionSegmentMoved this_isMoved cstart csegments segmentIndex True s0
                = Some (Inr (b, s'\<lparr>hasConflict := True\<rparr>))"
    by (rule segment_check_sets_hasConflict)
next
  assume "MovedElementsSelector n idx selected = Some (Inr s)"
    "canvasesIndexed idx selected" "L \<in> set selected" "kind L = SLinePoint c lpos"
    "getById idx c = Some C" "kind C = SCanvasConnection st sg"
    "relevantPoints st sg (calcSegmentIndex idx lpos (length sg)) = Some pts"
    "m \<in> set pts" "getById idx m = Some M" "isCanvasPoint M" "Some M \<in> set (movedElements s)"
    "q \<in> set pts" "getById idx q = Some Q" "kind Q = SAbsolutePoint" "parent Q = Some canvas"
    "findParentByFeature (\<lambda>p. isMarker p \<or> isCanvasElement p) canvas = None"
    "Some Q \<notin> set (movedElements s)"
  then show "hasConflict s"
    by (rule selected_line_point_conflict)
qed

theorem partial_move_sets_hasConflict_witness:
  "(\<exists>b. isCanvasConnectionSegmentMoved (isMoved 5 example_index) ''p'' [SCanvasSegment ''e''] 0 True
        (emptySelector\<lparr>movedElements := [Some point_P]\<rparr>)
      = Some (Inr (b, emptySelector\<lparr>movedElements := [Some point_P],
            isMovedLookup := [''p'' \<mapsto> True, ''root'' \<mapsto> False, ''e'' \<mapsto> False],
            hasConflict := True\<rparr>)))
   \<and> (\<exists>s. MovedElementsSelector 5 line_point_index [point_P, point_L] = Some (Inr s)
        \<and> point_L \<in> set [point_P, point_L]
        \<and> relevantPoints ''p'' [SCanvasSegment ''e''] 0 = Some [''p'', ''e'']
        \<and> Some point_P \<in> set (movedElements s) \<and> Some point_E \<notin> set (movedElements s)
        \<and> hasConflict s)"
proof -
  have 1: "relevantPoints ''p'' [SCanvasSegment ''e''] 0 = Some [''p'', ''e'']"
    by (simp add: relevantPoints_def at_index_def)
  have 2: "mapIsMoved (isMoved 5 example_index) True [''p'', ''e'']
        (emptySelector\<lparr>movedElements := [Some point_P]\<rparr>)
      = Some (Inr ([True, False],
          emptySelector\<lparr>movedElements := [Some point_P],
            isMovedLookup := [''p'' \<mapsto> True, ''root'' \<mapsto> False, ''e'' \<mapsto> False]\<rparr>))"
    by (simp add: selector_defs example_defs eval_nat_numeral)
  have first: "\<exists>b. isCanvasConnectionSegmentMoved (isMoved 5 example_index) ''p'' [SCanvasSegment ''e''] 0 True
        (emptySelector\<lparr>movedElements := [Some point_P]\<rparr>)
      = Some (Inr (b, emptySelector\<lparr>movedElements := [Some point_P],
            isMovedLookup := [''p'' \<mapsto> True, ''root'' \<mapsto> False, ''e'' \<mapsto> False],
            hasConflict := True\<rparr>))"
    using partial_move_sets_hasConflict[THEN conjunct1, rule_format, OF 1 2] by simp
  have "case MovedElementsSelector 5 line_point_index [point_P, point_L] of
          Some (Inr s) \<Rightarrow> Some point_P \<in> set (movedElements s) \<and> Some point_E \<notin> set (movedElements s)
        | _ \<Rightarrow> False"
    by code_simp
  then obtain s where s: "MovedElementsSelector 5 line_point_index [point_P, point_L] = Some (Inr s)"
    and mp: "Some point_P \<in> set (movedElements s)" and me: "Some point_E \<notin> set (movedElements s)"
    by (auto split: option.splits sum.splits)
  have ci: "canvasesIndexed line_point_index [point_P, point_L]"
    by (auto simp: canvasesIndexed_def canvasIndexed_def parentIndexed_def example_defs
        isCanvasElement_def isCanvasPoint_def split: if_splits)
  have l: "point_L \<in> set [point_P, point_L]" "kind point_L = SLinePoint ''c'' (Pos (1 / 2))"
    "getById line_point_index ''c'' = Some connection_C"
    "kind connection_C = SCanvasConnection ''p'' [SCanvasSegment ''e'']"
    by (simp_all add: example_defs)
  have r: "relevantPoints ''p'' [SCanvasSegment ''e'']
      (calcSegmentIndex line_point_index (Pos (1 / 2)) (length [SCanvasSegment ''e'']))
      = Some [''p'', ''e'']"
    by (simp add: relevantPoints_def at_index_def example_defs)
  have p: "''p'' \<in> set [''p'', ''e'']" "getById line_point_index ''p'' = Some point_P"
    "isCanvasPoint point_P"
    by (simp_all add: example_defs isCanvasPoint_def)
  have e: "''e'' \<in> set [''p'', ''e'']" "getById line_point_index ''e'' = Some point_E"
    "kind point_E = SAbsolutePoint" "parent point_E = Some root_canvas"
    "findParentByFeature (\<lambda>p. isMarker p \<or> isCanvasElement p) root_canvas = None"
    by (simp_all add: example_defs isMarker_def isCanvasElement_def)
  have "hasConflict s"
    using partial_move_sets_hasConflict[THEN conjunct2, rule_format,
        OF s ci l r p mp e me] .
  with s l(1) 1 mp me first show ?thesis by blast
qed

text \<open>
  C4, as the claim has it, fails: in the example diagram the end \<open>e\<close> of the segment is
  the only selected element, so exactly one relevant point of the segment is in the
  explicit move set and the start \<open>p\<close> is not; no moved element depends on the segment,
  the segment check never runs, and the constructor returns with \<open>hasConflict = False\<close>.
\<close>

theorem no_conflict_for_unchecked_segment:
  "relevantPoints ''p'' [SCanvasSegment ''e''] 0 = Some [''p'', ''e'']
   \<and> MovedElementsSelector 5 example_index [point_E]
      = Some (Inr \<lparr>movedElements = [Some point_E], implicitlyMovedElements = [],
          hasConflict = False, isMovedLookup = [''root'' \<mapsto> False, ''p'' \<mapsto> False]\<rparr>)"
  by (simp add: selector_defs example_defs eval_nat_numeral)

text \<open>
  C6, as the claim has it, fails: with the shape \<open>s\<close> (positioned at the absolute point
  \<open>p\<close>) selected alone, the constructor returns with \<open>movedElements = {p}\<close>; the shape
  has been pruned into \<open>implicitlyMovedElements\<close>.
\<close>

theorem shape_pruned_from_movedElements:
  "MovedElementsSelector 5 example_index [shape_S]
     = Some (Inr \<lparr>movedElements = [Some point_P], implicitlyMovedElements = [Some shape_S],
         hasConflict = False, isMovedLookup = [''p'' \<mapsto> True, ''root'' \<mapsto> False]\<rparr>)
   \<and> Some shape_S \<notin> set [Some point_P]"
  by (simp add: selector_defs example_defs eval_nat_numeral)

text \<open>The two passes of the expansion for a shape selected alone.\<close>

lemma registerElements_shape:
  assumes "kind S = SCanvasElement (Some p)"
    and "getById idx p = Some P" "kind P = SAbsolutePoint"
    and "registerElements n idx [Some S] emptySelector = Some (Inr s1)"
  shows "s1 = emptySelector\<lparr>movedElements := [Some S, Some P]\<rparr> \<and> (\<exists>m. n = Suc m)"
proof (cases n)
  case 0
  with assms(4) show ?thesis by simp
next
  case (Suc m)
  from assms(1,3) have ne: "S \<noteq> P" by auto
  have pass1: "registerPass idx [Some S] ([], []) = Inr ([Some P], [Some S])"
    using assms(1,2) by (simp add: expandFirst_def expandSecond_def setAdd_def)
  have pass2: "registerPass idx [Some P] ([], [Some S]) = Inr ([], [Some S, Some P])"
    using assms(3) ne by (simp add: expandFirst_def expandSecond_def setAdd_def)
  from assms(4) Suc pass1
  have 2: "registerElements m idx [Some P] (emptySelector\<lparr>movedElements := [Some S]\<rparr>) = Some (Inr s1)"
    by (simp add: emptySelector_def)
  show ?thesis
  proof (cases m)
    case 0
    with 2 show ?thesis by simp
  next
    case (Suc k)
    with 2 pass2 \<open>n = Suc m\<close> show ?thesis
      by (simp add: emptySelector_def returns_Inr)
  qed
qed

lemma registerAdditionalLoop_grows:
  "preserves f \<Longrightarrow> registerAdditionalLoop f idx es s = Some (Inr s') \<Longrightarrow>
     set (implicitlyMovedElements s) \<subseteq> set (implicitlyMovedElements s')"
proof (induction es arbitrary: s)
  case Nil
  then show ?case by (simp add: returns_Inr)
next
  case (Cons e es)
  show ?case
  proof (cases "(isCanvasElement e \<or> isCanvasPoint e) \<and> Some e \<notin> set (movedElements s)")
    case False
    with Cons.prems(2) have "registerAdditionalLoop f idx es s = Some (Inr s')"
      by (auto split: if_splits)
    from Cons.IH[OF Cons.prems(1) this] show ?thesis .
  next
    case True
    with Cons.prems(2) obtain b s1 where
      1: "isElementImplicitlyMoved f idx (Some e) False s = Some (Inr (b, s1))" and
      2: "registerAdditionalLoop f idx es
            (if b then s1\<lparr>implicitlyMovedElements := setAdd (Some e) (implicitlyMovedElements s1)\<rparr>
             else s1) = Some (Inr s')"
      by (auto simp: andThen_Inr)
    from isElementImplicitlyMoved_frame[OF Cons.prems(1) 1] have f1: "frame s s1" .
    from Cons.IH[OF Cons.prems(1) 2] f1 show ?thesis
      by (auto simp: frame_def set_setAdd split: if_splits)
  qed
qed

text \<open>
  C6, as the code has it. When a shape \<open>S\<close> whose position is the absolute point \<open>P\<close> of
  the root canvas is the only selected element, the constructor returns with
  \<open>movedElements = {P}\<close> and with \<open>S\<close> among the implicitly moved elements.
\<close>

theorem shape_selected_alone:
  assumes "kind S = SCanvasElement (Some p)"
    and "getById idx p = Some P" and "kind P = SAbsolutePoint" and "parent P = Some canvas"
    and "ident canvas \<noteq> p"
    and "findParentByFeature (\<lambda>q. isMarker q \<or> isCanvasElement q) canvas = None"
    and "MovedElementsSelector n idx [S] = Some (Inr s)"
  shows "set (movedElements s) = {Some P} \<and> Some S \<in> set (implicitlyMovedElements s)"
proof -
  from assms(7) obtain s1 s2 where
    g: "registerElements n idx (newSet (map Some [S])) emptySelector = Some (Inr s1)" and
    p: "pruneMovedElements n idx s1 = Some (Inr s2)" and
    r: "registerAdditionalImplicitlyMovedElements n idx s2 = Some (Inr s)"
    by (rule MovedElementsSelector_phases)
  from g have "registerElements n idx [Some S] emptySelector = Some (Inr s1)"
    by (simp add: newSet_def setAdd_def)
  from registerElements_shape[OF assms(1-3) this] obtain m where
    s1: "s1 = emptySelector\<lparr>movedElements := [Some S, Some P]\<rparr>" and n: "n = Suc m"
    by blast
  from assms(1,3) have ne: "S \<noteq> P" by auto
  define t1 where "t1 = s1\<lparr>isMovedLookup := [p \<mapsto> True]\<rparr>"
  have i1: "isElementImplicitlyMoved (isMoved n idx) idx (Some S) True s1 = Some (Inr (True, t1))"
    using assms(1-3) s1 n
    by (simp add: isElementImplicitlyMoved_def isElementMoved_def emptySelector_def
        isCanvasPoint_def andThen_def returns_def t1_def)
  define t2 where "t2 = t1\<lparr>implicitlyMovedElements := [Some S]\<rparr>"
  from p obtain t where
    l: "pruneLoop (isMoved n idx) idx (movedElements s1) s1 = Some (Inr t)" and
    s2: "s2 = t\<lparr>movedElements := fold removeAll (implicitlyMovedElements t) (movedElements t)\<rparr>"
    by (auto simp: pruneMovedElements_def andThen_Inr returns_Inr)
  from l s1 i1 have "pruneLoop (isMoved n idx) idx [Some P] t2 = Some (Inr t)"
    by (simp add: emptySelector_def andThen_def t2_def t1_def setAdd_def)
  then obtain b t3 where
    i2: "isElementImplicitlyMoved (isMoved n idx) idx (Some P) True t2 = Some (Inr (b, t3))" and
    t: "t = (if b then t3\<lparr>implicitlyMovedElements := setAdd (Some P) (implicitlyMovedElements t3)\<rparr>
             else t3)"
    by (auto simp: andThen_Inr returns_Inr)
  from assms(5) have "isMovedLookup t2 (ident canvas) \<noteq> Some True"
    by (simp add: t2_def t1_def s1 emptySelector_def)
  from absolute_point_at_root_not_implicitly_moved[OF assms(3,4,6) i2 this] have "\<not> b" .
  with t isElementImplicitlyMoved_frame[OF isMoved_preserves i2] s2 ne
  have m2: "movedElements s2 = [Some P]" and im2: "implicitlyMovedElements s2 = [Some S]"
    by (simp_all add: frame_def t2_def t1_def s1 emptySelector_def)
  from registerAdditional_sets(1)[OF r] m2 have "set (movedElements s) = {Some P}" by simp
  moreover
  from r have "set (implicitlyMovedElements s2) \<subseteq> set (implicitlyMovedElements s)"
    unfolding registerAdditionalImplicitlyMovedElements_def
    by (rule registerAdditionalLoop_grows[OF isMoved_preserves])
  with im2 have "Some S \<in> set (implicitlyMovedElements s)" by auto
  ultimately show ?thesis by simp
qed

theorem shape_selected_alone_witness:
  "\<exists>s. MovedElementsSelector 5 example_index [shape_S] = Some (Inr s)
     \<and> set (movedElements s) = {Some point_P} \<and> Some shape_S \<in> set (implicitlyMovedElements s)"
proof -
  have "case MovedElementsSelector 5 example_index [shape_S] of
          Some (Inr s) \<Rightarrow> True | _ \<Rightarrow> False"
    by code_simp
  then obtain s where s: "MovedElementsSelector 5 example_index [shape_S] = Some (Inr s)"
    by (auto split: option.splits sum.splits)
  have 1: "kind shape_S = SCanvasElement (Some ''p'')" by (simp add: example_defs)
  have 2: "getById example_index ''p'' = Some point_P" by (simp add: example_defs)
  have 3: "kind point_P = SAbsolutePoint" by (simp add: example_defs)
  have 4: "parent point_P = Some root_canvas" by (simp add: example_defs)
  have 5: "ident root_canvas \<noteq> ''p''" by (simp add: example_defs)
  have 6: "findParentByFeature (\<lambda>q. isMarker q \<or> isCanvasElement q) root_canvas = None"
    by (simp add: example_defs isMarker_def isCanvasElement_def)
  from shape_selected_alone[OF 1 2 3 4 5 6 s] s show ?thesis by blast
qed

section \<open>Termination of the expansion\<close>

lemma expandFirst_new:
  assumes "expandFirst idx e (new, mv) = Inr (new', mv')" and "y \<in> set new'"
  shows "y \<in> set new \<or> refersTo idx e y"
proof (cases e)
  case None
  with assms show ?thesis by (auto simp: expandFirst_def)
next
  case (Some x)
  show ?thesis
  proof (cases "kind x")
    case (SCanvasConnection cstart csegments)
    with assms(1) Some obtain seg where
      seg: "at_last csegments = Some seg" "new' = setAdd (getById idx (segment_end seg)) new"
      by (auto simp: expandFirst_def split: option.splits)
    from seg(1) have "segment_end seg \<in> set (references x)"
      using SCanvasConnection by (auto simp: at_last_def references_def split: if_splits)
    with seg(2) assms(2) Some show ?thesis
      by (auto simp: set_setAdd refersTo_def)
  next
    case (SMarker mpos pid)
    with assms(1) Some have "new' = setAdd (getById idx pid) new"
      by (auto simp: expandFirst_def)
    moreover have "pid \<in> set (references x)"
      using SMarker by (simp add: references_def)
    ultimately show ?thesis using Some assms(2)
      by (auto simp: set_setAdd refersTo_def)
  qed (use assms Some in \<open>auto simp: expandFirst_def\<close>)
qed

lemma expandSecond_new:
  assumes "y \<in> set (expandSecond idx e new)"
  shows "y \<in> set new \<or> refersTo idx e y"
proof (cases e)
  case None
  with assms show ?thesis by (auto simp: expandSecond_def)
next
  case (Some x)
  with assms show ?thesis
    by (cases "kind x")
      (auto simp: expandSecond_def references_def refersTo_def set_setAdd Let_def
        split: option.splits if_splits)
qed

lemma registerPass_new:
  "registerPass idx es (new, mv) = Inr (new', mv') \<Longrightarrow> y \<in> set new' \<Longrightarrow>
     y \<in> set new \<or> (\<exists>e \<in> set es. refersTo idx e y)"
proof (induction es arbitrary: new mv)
  case Nil
  then show ?case by simp
next
  case (Cons e es)
  from Cons.prems(1) obtain new1 mv1 where
    1: "expandFirst idx e (new, mv) = Inr (new1, mv1)" and
    2: "registerPass idx es (expandSecond idx e new1, mv1) = Inr (new', mv')"
    by (auto split: sum.splits)
  from Cons.IH[OF 2 Cons.prems(2)]
  consider "y \<in> set (expandSecond idx e new1)" | "\<exists>e' \<in> set es. refersTo idx e' y"
    by blast
  then show ?case
  proof cases
    case 1
    from expandSecond_new[OF this] expandFirst_new[OF \<open>expandFirst idx e (new, mv) = Inr (new1, mv1)\<close>]
    show ?thesis by auto
  next
    case 2
    then show ?thesis by auto
  qed
qed

lemma registerPass_nodes:
  assumes "registerPass idx es ([], mv) = Inr (new', mv')"
  shows "Some -` set new' \<subseteq> ran (getById idx)"
    and "Some -` set es \<subseteq> ran (getById idx) \<Longrightarrow> Some -` set new' \<subseteq> referenceGraph idx `` (Some -` set es)"
    and "Some -` set es = {} \<Longrightarrow> new' = []"
proof -
  have sub: "\<exists>x i. Some x \<in> set es \<and> i \<in> set (references x) \<and> y = getById idx i"
    if "y \<in> set new'" for y
    using registerPass_new[OF assms that] by (auto simp: refersTo_def)
  show "Some -` set new' \<subseteq> ran (getById idx)"
  proof
    fix y assume "y \<in> Some -` set new'"
    then have "Some y \<in> set new'" by simp
    from sub[OF this] obtain i where "getById idx i = Some y" by metis
    then show "y \<in> ran (getById idx)" by (rule ranI)
  qed
  show "Some -` set new' \<subseteq> referenceGraph idx `` (Some -` set es)"
    if "Some -` set es \<subseteq> ran (getById idx)"
  proof
    fix y assume "y \<in> Some -` set new'"
    then have "Some y \<in> set new'" by simp
    from sub[OF this] obtain x i where
      xi: "Some x \<in> set es" "i \<in> set (references x)" "getById idx i = Some y" by metis
    from xi(1) that have "x \<in> ran (getById idx)" by auto
    with xi have "(x, y) \<in> referenceGraph idx" by (auto simp: referenceGraph_def)
    with xi(1) show "y \<in> referenceGraph idx `` (Some -` set es)" by auto
  qed
  show "new' = []" if "Some -` set es = {}"
  proof (cases new')
    case Nil
    then show ?thesis .
  next
    case (Cons y ys)
    then have "y \<in> set new'" by simp
    from sub[OF this] that show ?thesis by auto
  qed
qed

lemma finite_referenceGraph:
  assumes "finite (dom (getById idx))"
  shows "finite (referenceGraph idx)"
proof -
  from assms have "finite (ran (getById idx))" by (rule finite_ran)
  moreover have "referenceGraph idx \<subseteq> ran (getById idx) \<times> ran (getById idx)"
    by (auto simp: referenceGraph_def ran_def)
  ultimately show ?thesis by (meson finite_SigmaI finite_subset)
qed

lemma reachable_shrinks:
  assumes fin: "finite r" and acyc: "acyclic r"
    and A: "A \<noteq> {}" and finA: "finite (r\<^sup>* `` A)" and B: "B \<subseteq> r `` A"
  shows "card (r\<^sup>* `` B) < card (r\<^sup>* `` A)"
proof -
  from fin acyc have "wf r" by (rule finite_acyclic_wf)
  then have "wf (r\<^sup>+)" by (rule wf_trancl)
  from A obtain a where "a \<in> A" by blast
  with \<open>wf (r\<^sup>+)\<close> obtain z where z: "z \<in> A" and zmin: "\<And>y. (y, z) \<in> r\<^sup>+ \<Longrightarrow> y \<notin> A"
    by (metis wfE_min)
  have sub: "r\<^sup>* `` B \<subseteq> r\<^sup>* `` A"
  proof
    fix w assume "w \<in> r\<^sup>* `` B"
    then obtain b where "b \<in> B" "(b, w) \<in> r\<^sup>*" by blast
    with B obtain a' where "a' \<in> A" "(a', b) \<in> r" by blast
    with \<open>(b, w) \<in> r\<^sup>*\<close> have "(a', w) \<in> r\<^sup>*" by (meson converse_rtrancl_into_rtrancl)
    with \<open>a' \<in> A\<close> show "w \<in> r\<^sup>* `` A" by blast
  qed
  have "z \<in> r\<^sup>* `` A" using z by blast
  moreover have "z \<notin> r\<^sup>* `` B"
  proof
    assume "z \<in> r\<^sup>* `` B"
    then obtain b where "b \<in> B" "(b, z) \<in> r\<^sup>*" by blast
    with B obtain a' where "a' \<in> A" "(a', b) \<in> r" by blast
    with \<open>(b, z) \<in> r\<^sup>*\<close> have "(a', z) \<in> r\<^sup>+" by (meson rtrancl_into_trancl2)
    with zmin \<open>a' \<in> A\<close> show False by blast
  qed
  ultimately have "r\<^sup>* `` B \<subset> r\<^sup>* `` A" using sub by blast
  with finA show ?thesis by (rule psubset_card_mono)
qed

lemma registerElements_Suc:
  "registerElements (Suc n) idx es s =
     (if es = [] then returns s
      else (case registerPass idx es ([], movedElements s) of
              Inl e \<Rightarrow> throws e
            | Inr (newElements, moved) \<Rightarrow> registerElements n idx newElements (s\<lparr>movedElements := moved\<rparr>)))"
  by (cases es) simp_all

lemma registerElements_step:
  assumes "es \<noteq> []" "registerPass idx es ([], movedElements s) = Inr (new, mv)"
    and "\<forall>m \<ge> n. registerElements m idx new (s\<lparr>movedElements := mv\<rparr>) = Some r"
  shows "\<forall>m \<ge> Suc n. registerElements m idx es s = Some r"
proof (intro allI impI)
  fix m assume "Suc n \<le> m"
  then obtain k where "m = Suc k" "n \<le> k" by (cases m) auto
  with assms show "registerElements m idx es s = Some r"
    by (simp add: registerElements_Suc)
qed

lemma expandFirst_Inl:
  "expandFirst idx e acc = Inl err \<Longrightarrow> \<exists>x. e = Some x \<and> \<not> hasSegments x"
  by (cases acc; cases e)
    (auto simp: expandFirst_def hasSegments_def at_last_def split: kind.splits option.splits if_splits)

lemma registerPass_Inl:
  "registerPass idx es acc = Inl err \<Longrightarrow> \<exists>x. Some x \<in> set es \<and> \<not> hasSegments x"
proof (induction es arbitrary: acc)
  case Nil
  then show ?case by simp
next
  case (Cons e es)
  show ?case
  proof (cases "expandFirst idx e acc")
    case (Inl err')
    from expandFirst_Inl[OF this] show ?thesis by auto
  next
    case (Inr a)
    then obtain new1 mv1 where 1: "expandFirst idx e acc = Inr (new1, mv1)" by (cases a) auto
    with Cons.prems have "registerPass idx es (expandSecond idx e new1, mv1) = Inl err" by simp
    from Cons.IH[OF this] show ?thesis by auto
  qed
qed

lemma registerElements_terminates_in_index:
  assumes fin: "finite (dom (getById idx))" and acyc: "acyclic (referenceGraph idx)"
  shows "Some -` set es \<subseteq> ran (getById idx) \<Longrightarrow>
     \<exists>n r. (\<forall>m \<ge> n. registerElements m idx es s = Some r)
       \<and> ((\<forall>x \<in> ran (getById idx). hasSegments x) \<longrightarrow> (\<exists>s'. r = Inr s'))"
proof (induction "card ((referenceGraph idx)\<^sup>* `` (Some -` set es))" arbitrary: es s rule: less_induct)
  case less
  let ?r = "referenceGraph idx"
  show ?case
  proof (cases "es = []")
    case True
    then have "\<forall>m \<ge> 0. registerElements m idx es s = Some (Inr s)"
      by (simp add: returns_def)
    then show ?thesis by blast
  next
    case False
    show ?thesis
    proof (cases "registerPass idx es ([], movedElements s)")
      case (Inl e)
      have "\<forall>m \<ge> Suc 0. registerElements m idx es s = Some (Inl e)"
      proof (intro allI impI)
        fix m assume "Suc 0 \<le> m"
        then obtain k where "m = Suc k" by (cases m) auto
        with False Inl show "registerElements m idx es s = Some (Inl e)"
          by (simp add: registerElements_Suc throws_def)
      qed
      moreover from registerPass_Inl[OF Inl] less.prems
      have "\<not> (\<forall>x \<in> ran (getById idx). hasSegments x)" by auto
      ultimately show ?thesis by blast
    next
      case (Inr a)
      then obtain new mv where pass: "registerPass idx es ([], movedElements s) = Inr (new, mv)"
        by (cases a) auto
      note nodes = registerPass_nodes[OF pass]
      have "\<exists>n r. (\<forall>m \<ge> n. registerElements m idx new (s\<lparr>movedElements := mv\<rparr>) = Some r)
          \<and> ((\<forall>x \<in> ran (getById idx). hasSegments x) \<longrightarrow> (\<exists>s'. r = Inr s'))"
      proof (cases "Some -` set es = {}")
        case True
        with nodes(3) have "new = []" by simp
        then have "\<forall>m \<ge> 0. registerElements m idx new (s\<lparr>movedElements := mv\<rparr>)
            = Some (Inr (s\<lparr>movedElements := mv\<rparr>))"
          by (simp add: returns_def)
        then show ?thesis by blast
      next
        case ne: False
        have finr: "finite ?r" using fin by (rule finite_referenceGraph)
        have "?r\<^sup>* `` (Some -` set es) \<subseteq> ran (getById idx)"
        proof
          fix w assume "w \<in> ?r\<^sup>* `` (Some -` set es)"
          then obtain a where a: "a \<in> Some -` set es" "(a, w) \<in> ?r\<^sup>*" by blast
          from a(2) show "w \<in> ran (getById idx)"
          proof (cases rule: rtranclE)
            case base
            with a(1) less.prems show ?thesis by blast
          next
            case (step y)
            then show ?thesis by (auto simp: referenceGraph_def ran_def)
          qed
        qed
        with fin have finA: "finite (?r\<^sup>* `` (Some -` set es))"
          by (meson finite_ran finite_subset)
        from reachable_shrinks[OF finr acyc ne finA nodes(2)[OF less.prems]]
        have "card (?r\<^sup>* `` (Some -` set new)) < card (?r\<^sup>* `` (Some -` set es))" .
        from less.hyps[OF this nodes(1)] show ?thesis .
      qed
      then obtain n r where
        n: "\<forall>m \<ge> n. registerElements m idx new (s\<lparr>movedElements := mv\<rparr>) = Some r"
        and r: "(\<forall>x \<in> ran (getById idx). hasSegments x) \<longrightarrow> (\<exists>s'. r = Inr s')"
        by blast
      from registerElements_step[OF False pass n] r show ?thesis by blast
    qed
  qed
qed

text \<open>
  C8. If the content graph is finite and its reference chains (position of a shape, target
  of a relative point, provider of a line point, segment ends of a connection, anchor of
  a marker) are acyclic, the expansion loop of \<^verbatim>\<open>registerElements\<close> ends for every
  set of elements it is started with: there is a number of iterations with which, and
  with every larger one, the loop has left with a result. The result is the final state
  of the selector (no new content is produced any more) unless a connection without
  segments is met, which throws.
\<close>

theorem registerElements_terminates:
  assumes "finite (dom (getById idx))" and "acyclic (referenceGraph idx)"
  shows "\<exists>n r. (\<forall>m \<ge> n. registerElements m idx elements s = Some r)
     \<and> ((\<forall>x. Some x \<in> set elements \<or> x \<in> ran (getById idx) \<longrightarrow> hasSegments x)
          \<longrightarrow> (\<exists>s'. r = Inr s'))"
proof (cases "elements = []")
  case True
  then have "\<forall>m \<ge> 0. registerElements m idx elements s = Some (Inr s)"
    by (simp add: returns_def)
  then show ?thesis by blast
next
  case False
  show ?thesis
  proof (cases "registerPass idx elements ([], movedElements s)")
    case (Inl e)
    have "\<forall>m \<ge> Suc 0. registerElements m idx elements s = Some (Inl e)"
    proof (intro allI impI)
      fix m assume "Suc 0 \<le> m"
      then obtain k where "m = Suc k" by (cases m) auto
      with False Inl show "registerElements m idx elements s = Some (Inl e)"
        by (simp add: registerElements_Suc throws_def)
    qed
    moreover from registerPass_Inl[OF Inl]
    have "\<not> (\<forall>x. Some x \<in> set elements \<or> x \<in> ran (getById idx) \<longrightarrow> hasSegments x)" by auto
    ultimately show ?thesis by blast
  next
    case (Inr a)
    then obtain new mv where pass: "registerPass idx elements ([], movedElements s) = Inr (new, mv)"
      by (cases a) auto
    from registerElements_terminates_in_index[OF assms registerPass_nodes(1)[OF pass]]
    obtain n r where
      n: "\<forall>m \<ge> n. registerElements m idx new (s\<lparr>movedElements := mv\<rparr>) = Some r"
      and r: "(\<forall>x \<in> ran (getById idx). hasSegments x) \<longrightarrow> (\<exists>s'. r = Inr s')"
      by blast
    from registerElements_step[OF False pass n] r show ?thesis by blast
  qed
qed

theorem registerElements_terminates_witness:
  "finite (dom (getById example_index)) \<and> acyclic (referenceGraph example_index)
   \<and> list_all hasSegments [root_canvas, point_P, point_E, shape_S, connection_C]
   \<and> (\<exists>n s'. \<forall>m \<ge> n. registerElements m example_index [Some shape_S] emptySelector = Some (Inr s'))"
proof -
  have fin: "finite (dom (getById example_index))"
    by (simp add: example_index_def finite_dom_map_of)
  have ran: "ran (getById example_index) = {root_canvas, point_P, point_E, shape_S, connection_C}"
    by (simp add: example_index_def ran_distinct insert_commute)
  have acyc: "acyclic (referenceGraph example_index)"
  proof (rule acyclicI_order[where f = example_rank])
    fix a b assume "(a, b) \<in> referenceGraph example_index"
    then have a: "a \<in> {root_canvas, point_P, point_E, shape_S, connection_C}"
      and b: "\<exists>i \<in> set (references a). getById example_index i = Some b"
      using ran by (auto simp: referenceGraph_def)
    from a b
    show "example_rank b < example_rank a"
      by (auto simp: references_def example_defs example_rank_def)
  qed
  have segs: "\<forall>x. Some x \<in> set [Some shape_S] \<or> x \<in> ran (getById example_index) \<longrightarrow> hasSegments x"
    unfolding ran by (auto simp: hasSegments_def example_defs)
  from registerElements_terminates[OF fin acyc, of "[Some shape_S]" emptySelector] segs
  obtain n s' where "\<forall>m \<ge> n. registerElements m example_index [Some shape_S] emptySelector = Some (Inr s')"
    by blast
  moreover have "list_all hasSegments [root_canvas, point_P, point_E, shape_S, connection_C]"
    by (simp add: hasSegments_def example_defs)
  ultimately show ?thesis using fin acyc by blast
qed

section \<open>Claims about the projection\<close>

lemmas projection_defs =
  projectPointOnLine_def optionsToTest_def findBestProjectionWithFixedDistance_def
  findBestProjectionWithOptimalDistance_def testFixedDistance_def testOptimalDistance_def
  createProjectionResult_def findOptimalDistanceFromLine_def lessThanMin_def Math2D_distance_def
  straight_line_def

lemma floor_log_third: "\<lfloor>log 10 (1 / 3)\<rfloor> = - 1"
proof -
  have "log 10 (1 / 3) < 0" by simp
  moreover have "- 1 \<le> log 10 (1 / 3)"
    by (subst le_log_iff) (simp_all add: powr_minus)
  ultimately show ?thesis by linarith
qed

lemma toPrecision_third: "toPrecision 15 (1 / 3) = 333333333333333 / 10 ^ 15"
  by (simp add: toPrecision_def Let_def floor_log_third power_int_minus)

lemma foldl_best:
  fixes step :: "'r \<times> real option \<Rightarrow> real \<Rightarrow> 'r \<times> real option"
  assumes step: "\<And>acc v. step acc v =
      (if valid v \<and> lessThanMin (cost v) (snd acc) then (res v, Some (cost v)) else acc)"
  shows "(\<not> (\<exists>v \<in> set opts. valid v) \<longrightarrow> foldl step (b0, None) opts = (b0, None))
     \<and> ((\<exists>v \<in> set opts. valid v) \<longrightarrow>
          (\<exists>v \<in> set opts. valid v \<and> foldl step (b0, None) opts = (res v, Some (cost v))
             \<and> (\<forall>w \<in> set opts. valid w \<longrightarrow> cost v \<le> cost w)))"
proof (induction opts rule: rev_induct)
  case Nil
  show ?case by simp
next
  case (snoc x xs)
  show ?case
  proof (cases "\<exists>v \<in> set xs. valid v")
    case False
    with snoc have acc: "foldl step (b0, None) xs = (b0, None)" by simp
    show ?thesis
    proof (cases "valid x")
      case True
      with acc have "foldl step (b0, None) (xs @ [x]) = (res x, Some (cost x))"
        by (simp add: step lessThanMin_def)
      with True False show ?thesis by auto
    next
      case nv: False
      with acc have "foldl step (b0, None) (xs @ [x]) = (b0, None)"
        by (simp add: step)
      with nv False show ?thesis by auto
    qed
  next
    case True
    with snoc obtain v where v: "v \<in> set xs" "valid v"
      "foldl step (b0, None) xs = (res v, Some (cost v))"
      "\<forall>w \<in> set xs. valid w \<longrightarrow> cost v \<le> cost w"
      by blast
    show ?thesis
    proof (cases "valid x \<and> cost x < cost v")
      case better: True
      with v(3) have "foldl step (b0, None) (xs @ [x]) = (res x, Some (cost x))"
        by (simp add: step lessThanMin_def)
      moreover from better v(4) have "\<forall>w \<in> set (xs @ [x]). valid w \<longrightarrow> cost x \<le> cost w"
        by fastforce
      ultimately show ?thesis using better by auto
    next
      case worse: False
      with v(3) have "foldl step (b0, None) (xs @ [x]) = (res v, Some (cost v))"
        by (auto simp: step lessThanMin_def)
      moreover from worse v(4) have "\<forall>w \<in> set (xs @ [x]). valid w \<longrightarrow> cost v \<le> cost w"
        by fastforce
      ultimately show ?thesis using v(1,2) by auto
    qed
  qed
qed

lemma findBestProjectionWithFixedDistance_global:
  "(\<not> (\<exists>v \<in> set opts. 0 \<le> v \<and> v \<le> 1) \<longrightarrow>
      findBestProjectionWithFixedDistance e p tline opts orig False fd = orig)
   \<and> ((\<exists>v \<in> set opts. 0 \<le> v \<and> v \<le> 1) \<longrightarrow>
      (\<exists>v. nearestFixedCandidate e p tline fd opts v
         \<and> findBestProjectionWithFixedDistance e p tline opts orig False fd
           = createProjectionResult e v False tline fd (segment orig)))"
proof -
  have step: "testFixedDistance e p tline orig False fd acc v =
      (if (0 \<le> v \<and> v \<le> 1)
          \<and> lessThanMin (Math2D_distance p (getPoint e v None fd tline)) (snd acc)
       then (createProjectionResult e v False tline fd (segment orig),
             Some (Math2D_distance p (getPoint e v None fd tline)))
       else acc)" for acc v
    by (auto simp: testFixedDistance_def createProjectionResult_def Let_def)
  from foldl_best[of "testFixedDistance e p tline orig False fd"
      "\<lambda>v. 0 \<le> v \<and> v \<le> 1" "\<lambda>v. Math2D_distance p (getPoint e v None fd tline)"
      "\<lambda>v. createProjectionResult e v False tline fd (segment orig)" opts orig, OF step]
  show ?thesis
    unfolding findBestProjectionWithFixedDistance_def nearestFixedCandidate_def
    by (auto simp: fst_def split: prod.splits)
qed


lemma findBestProjectionWithOptimalDistance_global:
  "(\<not> (\<exists>v \<in> set opts. findOptimalDistanceFromLine e v None tline p \<noteq> None) \<longrightarrow>
      findBestProjectionWithOptimalDistance e p tline opts orig False sets
        = orig\<lparr>distance := roundToLinePointDistancePrecision e sets (distance orig)\<rparr>)
   \<and> ((\<exists>v \<in> set opts. findOptimalDistanceFromLine e v None tline p \<noteq> None) \<longrightarrow>
      (\<exists>v od. nearestOptimalCandidate e p tline opts v od
         \<and> findBestProjectionWithOptimalDistance e p tline opts orig False sets
           = createProjectionResult e v False tline
               (roundToLinePointDistancePrecision e sets od) (segment orig)))"
proof -
  define od where "od v = the (findOptimalDistanceFromLine e v None tline p)" for v
  have step: "testOptimalDistance e p tline orig False acc v =
      (if findOptimalDistanceFromLine e v None tline p \<noteq> None
          \<and> lessThanMin (Math2D_distance p (getPoint e v None (od v) tline)) (snd acc)
       then (createProjectionResult e v False tline (od v) (segment orig),
             Some (Math2D_distance p (getPoint e v None (od v) tline)))
       else acc)" for acc v
    by (auto simp: testOptimalDistance_def createProjectionResult_def Let_def od_def
        split: option.splits)
  note best = foldl_best[of "testOptimalDistance e p tline orig False"
      "\<lambda>v. findOptimalDistanceFromLine e v None tline p \<noteq> None"
      "\<lambda>v. Math2D_distance p (getPoint e v None (od v) tline)"
      "\<lambda>v. createProjectionResult e v False tline (od v) (segment orig)" opts orig, OF step]
  show ?thesis
  proof (intro conjI impI)
    assume "\<not> (\<exists>v \<in> set opts. findOptimalDistanceFromLine e v None tline p \<noteq> None)"
    with best have "foldl (testOptimalDistance e p tline orig False) (orig, None) opts = (orig, None)"
      by blast
    then show "findBestProjectionWithOptimalDistance e p tline opts orig False sets
        = orig\<lparr>distance := roundToLinePointDistancePrecision e sets (distance orig)\<rparr>"
      by (simp add: findBestProjectionWithOptimalDistance_def Let_def)
  next
    assume "\<exists>v \<in> set opts. findOptimalDistanceFromLine e v None tline p \<noteq> None"
    with best obtain v where v: "v \<in> set opts" "findOptimalDistanceFromLine e v None tline p \<noteq> None"
      "foldl (testOptimalDistance e p tline orig False) (orig, None) opts
        = (createProjectionResult e v False tline (od v) (segment orig),
           Some (Math2D_distance p (getPoint e v None (od v) tline)))"
      "\<forall>w \<in> set opts. findOptimalDistanceFromLine e w None tline p \<noteq> None \<longrightarrow>
         Math2D_distance p (getPoint e v None (od v) tline)
         \<le> Math2D_distance p (getPoint e w None (od w) tline)"
      by blast
    from v(2) have odv: "findOptimalDistanceFromLine e v None tline p = Some (od v)"
      by (auto simp: od_def)
    have "nearestOptimalCandidate e p tline opts v (od v)"
      unfolding nearestOptimalCandidate_def
    proof (intro conjI ballI allI impI)
      fix w od' assume w: "w \<in> set opts" "findOptimalDistanceFromLine e w None tline p = Some od'"
      then have "od w = od'" by (simp add: od_def)
      with v(4) w show "Math2D_distance p (getPoint e v None (od v) tline)
          \<le> Math2D_distance p (getPoint e w None od' tline)"
        by auto
    qed (use v(1) odv in simp_all)
    moreover from v(3) have "findBestProjectionWithOptimalDistance e p tline opts orig False sets
        = createProjectionResult e v False tline
            (roundToLinePointDistancePrecision e sets (od v)) (segment orig)"
      by (simp add: findBestProjectionWithOptimalDistance_def Let_def createProjectionResult_def)
    ultimately show "\<exists>v od. nearestOptimalCandidate e p tline opts v od
         \<and> findBestProjectionWithOptimalDistance e p tline opts orig False sets
           = createProjectionResult e v False tline
               (roundToLinePointDistancePrecision e sets od) (segment orig)"
      by blast
  qed
qed


text \<open>
  C2, as the claim has it, fails both ways. On the line from \<open>(0, 0)\<close> to \<open>(10, 0)\<close> the
  point \<open>(10/3, 0)\<close> projects to the position \<open>1/3\<close>. Without a configured precision and
  with rounding of the global position (\<open>hasSegment = False\<close>) the result is rounded to
  15 significant digits; with segment-relative rounding (\<open>hasSegment = True\<close>) the raw
  projection comes back.
\<close>

theorem rounding_skipped_for_segment_only:
  "projectPoint straight_line \<lparr>px = 10 / 3, py = 0\<rparr> () None
     = \<lparr>pos = 1 / 3, segment = 0, relativePos = 1 / 3, distance = 0\<rparr>
   \<and> projectPointOnLine straight_line \<lparr>px = 10 / 3, py = 0\<rparr> ()
       \<lparr>settings = \<lparr>linePointPosPrecision = None\<rparr>, hasSegment = False\<rparr> None
     = \<lparr>pos = 333333333333333 / 10 ^ 15, segment = 0,
        relativePos = 333333333333333 / 10 ^ 15, distance = 0\<rparr>
   \<and> projectPointOnLine straight_line \<lparr>px = 10 / 3, py = 0\<rparr> ()
       \<lparr>settings = \<lparr>linePointPosPrecision = None\<rparr>, hasSegment = True\<rparr> None
     = \<lparr>pos = 1 / 3, segment = 0, relativePos = 1 / 3, distance = 0\<rparr>"
  by (simp add: projection_defs Let_def toPrecision_third)

text \<open>
  C2, as the code has it. Without a configured \<open>linePointPosPrecision\<close>: when
  \<open>hasSegment\<close> is true, \<^verbatim>\<open>projectPointOnLine\<close> returns the raw projection of the line
  engine unchanged; when \<open>hasSegment\<close> is false, rounding is performed. The candidates
  are \<open>r\<close>, \<open>r + 1e-15\<close> and \<open>r - 1e-15\<close>, where \<open>r\<close> is the global position rounded to 15
  significant digits. With a forced distance the result is the projection result of the
  candidate in \<open>[0, 1]\<close> nearest to the point, and the raw projection only if no
  candidate lies in \<open>[0, 1]\<close>. Without a forced distance it is the projection result of
  the candidate nearest to the point at its optimal distance, with that distance rounded,
  and the raw projection with its distance rounded only if no candidate has a finite
  optimal distance.
\<close>

theorem projectPointOnLine_without_precision:
  assumes "linePointPosPrecision (settings info) = None"
  shows "optionsToTest e None x = [toPrecision 15 x, toPrecision 15 x + 1 / 10 ^ 15,
          toPrecision 15 x - 1 / 10 ^ 15]
     \<and> (hasSegment info \<longrightarrow>
          projectPointOnLine e p tline info forcedDistance = projectPoint e p tline forcedDistance)
     \<and> (\<not> hasSegment info \<longrightarrow>
          (\<forall>fd. forcedDistance = Some fd \<longrightarrow>
             ((\<exists>v \<in> set (optionsToTest e None (pos (projectPoint e p tline forcedDistance))).
                 0 \<le> v \<and> v \<le> 1) \<longrightarrow>
              (\<exists>v. nearestFixedCandidate e p tline fd
                      (optionsToTest e None (pos (projectPoint e p tline forcedDistance))) v
                 \<and> projectPointOnLine e p tline info forcedDistance
                   = createProjectionResult e v False tline fd
                       (segment (projectPoint e p tline forcedDistance))))
             \<and> (\<not> (\<exists>v \<in> set (optionsToTest e None (pos (projectPoint e p tline forcedDistance))).
                   0 \<le> v \<and> v \<le> 1) \<longrightarrow>
                projectPointOnLine e p tline info forcedDistance
                  = projectPoint e p tline forcedDistance))
          \<and> (forcedDistance = None \<longrightarrow>
             ((\<exists>v \<in> set (optionsToTest e None (pos (projectPoint e p tline forcedDistance))).
                 findOptimalDistanceFromLine e v None tline p \<noteq> None) \<longrightarrow>
              (\<exists>v od. nearestOptimalCandidate e p tline
                      (optionsToTest e None (pos (projectPoint e p tline forcedDistance))) v od
                 \<and> projectPointOnLine e p tline info forcedDistance
                   = createProjectionResult e v False tline
                       (roundToLinePointDistancePrecision e (settings info) od)
                       (segment (projectPoint e p tline forcedDistance))))
             \<and> (\<not> (\<exists>v \<in> set (optionsToTest e None (pos (projectPoint e p tline forcedDistance))).
                   findOptimalDistanceFromLine e v None tline p \<noteq> None) \<longrightarrow>
                projectPointOnLine e p tline info forcedDistance
                  = (projectPoint e p tline forcedDistance)
                      \<lparr>distance := roundToLinePointDistancePrecision e (settings info)
                         (distance (projectPoint e p tline forcedDistance))\<rparr>)))"
proof (intro conjI)
  show "optionsToTest e None x = [toPrecision 15 x, toPrecision 15 x + 1 / 10 ^ 15,
          toPrecision 15 x - 1 / 10 ^ 15]"
    by (simp add: optionsToTest_def Let_def)
next
  show "hasSegment info \<longrightarrow>
          projectPointOnLine e p tline info forcedDistance = projectPoint e p tline forcedDistance"
    using assms by (simp add: projectPointOnLine_def)
next
  let ?orig = "projectPoint e p tline forcedDistance"
  let ?opts = "optionsToTest e None (pos ?orig)"
  show "\<not> hasSegment info \<longrightarrow>
          (\<forall>fd. forcedDistance = Some fd \<longrightarrow>
             ((\<exists>v \<in> set ?opts. 0 \<le> v \<and> v \<le> 1) \<longrightarrow>
              (\<exists>v. nearestFixedCandidate e p tline fd ?opts v
                 \<and> projectPointOnLine e p tline info forcedDistance
                   = createProjectionResult e v False tline fd (segment ?orig)))
             \<and> (\<not> (\<exists>v \<in> set ?opts. 0 \<le> v \<and> v \<le> 1) \<longrightarrow>
                projectPointOnLine e p tline info forcedDistance = ?orig))
          \<and> (forcedDistance = None \<longrightarrow>
             ((\<exists>v \<in> set ?opts. findOptimalDistanceFromLine e v None tline p \<noteq> None) \<longrightarrow>
              (\<exists>v od. nearestOptimalCandidate e p tline ?opts v od
                 \<and> projectPointOnLine e p tline info forcedDistance
                   = createProjectionResult e v False tline
                       (roundToLinePointDistancePrecision e (settings info) od) (segment ?orig)))
             \<and> (\<not> (\<exists>v \<in> set ?opts. findOptimalDistanceFromLine e v None tline p \<noteq> None) \<longrightarrow>
                projectPointOnLine e p tline info forcedDistance
                  = ?orig\<lparr>distance := roundToLinePointDistancePrecision e (settings info)
                         (distance ?orig)\<rparr>))"
  proof (intro impI conjI allI)
    fix fd assume ns: "\<not> hasSegment info" and fd: "forcedDistance = Some fd"
    from assms ns fd have r: "projectPointOnLine e p tline info forcedDistance
        = findBestProjectionWithFixedDistance e p tline ?opts ?orig False fd"
      by (simp add: projectPointOnLine_def Let_def)
    note fixed = findBestProjectionWithFixedDistance_global[of ?opts e p tline ?orig fd]
    {
      assume "\<exists>v \<in> set ?opts. 0 \<le> v \<and> v \<le> 1"
      with fixed show "\<exists>v. nearestFixedCandidate e p tline fd ?opts v
                 \<and> projectPointOnLine e p tline info forcedDistance
                   = createProjectionResult e v False tline fd (segment ?orig)"
        unfolding r by blast
    }
    {
      assume "\<not> (\<exists>v \<in> set ?opts. 0 \<le> v \<and> v \<le> 1)"
      with fixed show "projectPointOnLine e p tline info forcedDistance = ?orig"
        unfolding r by blast
    }
  next
    assume ns: "\<not> hasSegment info" and fd: "forcedDistance = None"
    from assms ns fd have r: "projectPointOnLine e p tline info forcedDistance
        = findBestProjectionWithOptimalDistance e p tline ?opts ?orig False (settings info)"
      by (simp add: projectPointOnLine_def Let_def)
    note optimal = findBestProjectionWithOptimalDistance_global[of ?opts e tline p ?orig
        "settings info"]
    {
      assume "\<exists>v \<in> set ?opts. findOptimalDistanceFromLine e v None tline p \<noteq> None"
      with optimal show "\<exists>v od. nearestOptimalCandidate e p tline ?opts v od
                 \<and> projectPointOnLine e p tline info forcedDistance
                   = createProjectionResult e v False tline
                       (roundToLinePointDistancePrecision e (settings info) od) (segment ?orig)"
        unfolding r by blast
    }
    {
      assume "\<not> (\<exists>v \<in> set ?opts. findOptimalDistanceFromLine e v None tline p \<noteq> None)"
      with optimal show "projectPointOnLine e p tline info forcedDistance
                  = ?orig\<lparr>distance := roundToLinePointDistancePrecision e (settings info)
                         (distance ?orig)\<rparr>"
        unfolding r by blast
    }
  qed
qed


theorem projectPointOnLine_without_precision_witness:
  "linePointPosPrecision (settings \<lparr>settings = \<lparr>linePointPosPrecision = None\<rparr>, hasSegment = True\<rparr>) = None
   \<and> optionsToTest straight_line None (1 / 3)
       = [333333333333333 / 10 ^ 15, 333333333333333 / 10 ^ 15 + 1 / 10 ^ 15,
          333333333333333 / 10 ^ 15 - 1 / 10 ^ 15]
   \<and> projectPointOnLine straight_line \<lparr>px = 10 / 3, py = 0\<rparr> ()
        \<lparr>settings = \<lparr>linePointPosPrecision = None\<rparr>, hasSegment = True\<rparr> None
      = projectPoint straight_line \<lparr>px = 10 / 3, py = 0\<rparr> () None
   \<and> (\<exists>v od. nearestOptimalCandidate straight_line \<lparr>px = 10 / 3, py = 0\<rparr> ()
               (optionsToTest straight_line None (1 / 3)) v od
         \<and> projectPointOnLine straight_line \<lparr>px = 10 / 3, py = 0\<rparr> ()
              \<lparr>settings = \<lparr>linePointPosPrecision = None\<rparr>, hasSegment = False\<rparr> None
            = createProjectionResult straight_line v False ()
                (roundToLinePointDistancePrecision straight_line \<lparr>linePointPosPrecision = None\<rparr> od) 0)
   \<and> (\<exists>v. nearestFixedCandidate straight_line \<lparr>px = 10 / 3, py = 0\<rparr> () 0
               (optionsToTest straight_line None (1 / 3)) v
         \<and> projectPointOnLine straight_line \<lparr>px = 10 / 3, py = 0\<rparr> ()
              \<lparr>settings = \<lparr>linePointPosPrecision = None\<rparr>, hasSegment = False\<rparr> (Some 0)
            = createProjectionResult straight_line v False () 0 0)"
proof -
  define P :: point where "P = \<lparr>px = 10 / 3, py = 0\<rparr>"
  define infoT infoF where "infoT = \<lparr>settings = \<lparr>linePointPosPrecision = None\<rparr>, hasSegment = True\<rparr>"
    and "infoF = \<lparr>settings = \<lparr>linePointPosPrecision = None\<rparr>, hasSegment = False\<rparr>"
  have pT: "linePointPosPrecision (settings infoT) = None"
    and pF: "linePointPosPrecision (settings infoF) = None"
    and hT: "hasSegment infoT" and hF: "\<not> hasSegment infoF"
    and sF: "settings infoF = \<lparr>linePointPosPrecision = None\<rparr>"
    by (simp_all add: infoT_def infoF_def)
  have orig: "pos (projectPoint straight_line P () fd) = 1 / 3"
    "segment (projectPoint straight_line P () fd) = 0" for fd
    by (simp_all add: straight_line_def P_def Let_def)
  have opts: "optionsToTest straight_line None (1 / 3)
       = [333333333333333 / 10 ^ 15, 333333333333333 / 10 ^ 15 + 1 / 10 ^ 15,
          333333333333333 / 10 ^ 15 - 1 / 10 ^ 15]"
    using projectPointOnLine_without_precision[OF pT, of straight_line "1 / 3"]
    by (simp add: toPrecision_third)
  have raw: "projectPointOnLine straight_line P () infoT None = projectPoint straight_line P () None"
    using projectPointOnLine_without_precision[OF pT, of straight_line _ P "()" None] hT by blast
  have c1: "\<exists>v \<in> set (optionsToTest straight_line None (1 / 3)).
      findOptimalDistanceFromLine straight_line v None () P \<noteq> None"
    unfolding opts
    by (rule bexI[of _ "333333333333333 / 10 ^ 15"])
       (simp_all add: findOptimalDistanceFromLine_def straight_line_def P_def Let_def)
  have c2: "\<exists>v \<in> set (optionsToTest straight_line None (1 / 3)). 0 \<le> v \<and> v \<le> 1"
    unfolding opts by (rule bexI[of _ "333333333333333 / 10 ^ 15"]) simp_all
  have optimal: "\<exists>v od. nearestOptimalCandidate straight_line P ()
               (optionsToTest straight_line None (1 / 3)) v od
         \<and> projectPointOnLine straight_line P () infoF None
            = createProjectionResult straight_line v False ()
                (roundToLinePointDistancePrecision straight_line \<lparr>linePointPosPrecision = None\<rparr> od) 0"
    using projectPointOnLine_without_precision[OF pF, of straight_line _ P "()" None] hF c1
    unfolding orig sF by blast
  have fixed: "\<exists>v. nearestFixedCandidate straight_line P () 0
               (optionsToTest straight_line None (1 / 3)) v
         \<and> projectPointOnLine straight_line P () infoF (Some 0)
            = createProjectionResult straight_line v False () 0 0"
    using projectPointOnLine_without_precision[OF pF, of straight_line _ P "()" "Some 0"] hF c2
    unfolding orig by blast
  from pT opts raw optimal fixed show ?thesis
    unfolding P_def infoT_def infoF_def by blast
qed


text \<open>
  C5. The projection at concrete inputs, on the line of one segment from \<open>(0, 0)\<close> to
  \<open>(10, 0)\<close> with the precision \<open>1/10\<close>. For the end point \<open>(10, 0)\<close> of the line, global
  rounding and a forced distance, the result has \<open>segment = 1\<close>, the number of segments.
  For the point \<open>(11, 0)\<close> beyond the end and no forced distance, the candidate \<open>11/10\<close>
  is not filtered and wins.
\<close>

theorem projection_result_out_of_range:
  "segmentsLength straight_line () = 1
   \<and> projectPointOnLine straight_line \<lparr>px = 10, py = 0\<rparr> ()
       \<lparr>settings = \<lparr>linePointPosPrecision = Some (1 / 10)\<rparr>, hasSegment = False\<rparr> (Some 0)
     = \<lparr>pos = 1, segment = 1, relativePos = 0, distance = 0\<rparr>
   \<and> projectPointOnLine straight_line \<lparr>px = 11, py = 0\<rparr> ()
       \<lparr>settings = \<lparr>linePointPosPrecision = Some (1 / 10)\<rparr>, hasSegment = True\<rparr> None
     = \<lparr>pos = 11 / 10, segment = 0, relativePos = 11 / 10, distance = 0\<rparr>"
  by (simp add: projection_defs Let_def)

section \<open>The projection result on doubles\<close>


lemma roundHalfEven_nonneg: "0 \<le> q \<Longrightarrow> 0 \<le> roundHalfEven q"
  unfolding roundHalfEven_def Let_def by auto





lemma toDouble_nonneg: "0 \<le> x \<Longrightarrow> 0 \<le> toDouble x"
  by (auto simp: toDouble_def Let_def intro!: mult_nonneg_nonneg roundHalfEven_nonneg)
















section \<open>Claims about the bounds\<close>

lemma scaled_between:
  fixes a u :: real
  assumes "0 \<le> u" "u \<le> 1"
  shows "min 0 a \<le> u * a" and "u * a \<le> max 0 a"
proof -
  show "min 0 a \<le> u * a"
  proof (cases "0 \<le> a")
    case True
    with assms have "0 \<le> u * a" by simp
    with True show ?thesis by simp
  next
    case False
    with assms have "1 * a \<le> u * a" by (intro mult_right_mono_neg) simp_all
    with False show ?thesis by simp
  qed
  show "u * a \<le> max 0 a"
  proof (cases "0 \<le> a")
    case True
    with assms have "u * a \<le> 1 * a" by (intro mult_right_mono) simp_all
    with True show ?thesis by simp
  next
    case False
    with assms have "u * a \<le> 0" by (simp add: mult_nonneg_nonpos)
    with False show ?thesis by simp
  qed
qed

lemma min_of_corners:
  fixes c a b :: real
  shows "min c (min (c + a) (min (c + b) (c + a + b))) = c + min 0 a + min 0 b"
  by (simp add: min_def)

lemma max_of_corners:
  fixes c a b :: real
  shows "max c (max (c + a) (max (c + b) (c + a + b))) = c + max 0 a + max 0 b"
  by (simp add: max_def)

lemma attained_min:
  fixes a b :: real
  obtains u v where "0 \<le> u" "u \<le> 1" "0 \<le> v" "v \<le> 1" "u * a + v * b = min 0 a + min 0 b"
proof -
  let ?u = "if a \<le> 0 then 1 else 0 :: real" and ?v = "if b \<le> 0 then 1 else 0 :: real"
  have "?u * a + ?v * b = min 0 a + min 0 b" by (simp add: min_def)
  moreover have "0 \<le> ?u" "?u \<le> 1" "0 \<le> ?v" "?v \<le> 1" by simp_all
  ultimately show ?thesis using that by blast
qed

lemma attained_max:
  fixes a b :: real
  obtains u v where "0 \<le> u" "u \<le> 1" "0 \<le> v" "v \<le> 1" "u * a + v * b = max 0 a + max 0 b"
proof -
  let ?u = "if 0 \<le> a then 1 else 0 :: real" and ?v = "if 0 \<le> b then 1 else 0 :: real"
  have "?u * a + ?v * b = max 0 a + max 0 b" by (simp add: max_def)
  moreover have "0 \<le> ?u" "?u \<le> 1" "0 \<le> ?v" "?v \<le> 1" by simp_all
  ultimately show ?thesis using that by blast
qed

lemma calculateRotatedRectangleBounds_explicit:
  fixes anchor rot x0 y0 w h
  defines "c \<equiv> cos (rot * pi / 180)" and "s \<equiv> sin (rot * pi / 180)"
  shows "calculateRotatedRectangleBounds anchor rot x0 y0 w h =
     \<lparr>position =
        \<lparr>px = px anchor + (x0 * c - y0 * s) + min 0 (w * c) + min 0 (- (h * s)),
         py = py anchor + (x0 * s + y0 * c) + min 0 (w * s) + min 0 (h * c)\<rparr>,
      bsize =
        \<lparr>width = max 0 (w * c) + max 0 (- (h * s)) - min 0 (w * c) - min 0 (- (h * s)),
         height = max 0 (w * s) + max 0 (h * c) - min 0 (w * s) - min 0 (h * c)\<rparr>\<rparr>"
proof -
  define X A B where "X = x0 * c - y0 * s" and "A = w * c" and "B = - (h * s)"
  define Y C D where "Y = x0 * s + y0 * c" and "C = w * s" and "D = h * c"
  have x: "x0 * c - y0 * s = X" "(x0 + w) * c - y0 * s = X + A"
    "x0 * c - (y0 + h) * s = X + B" "(x0 + w) * c - (y0 + h) * s = X + A + B"
    by (simp_all add: X_def A_def B_def algebra_simps)
  have y: "x0 * s + y0 * c = Y" "(x0 + w) * s + y0 * c = Y + C"
    "x0 * s + (y0 + h) * c = Y + D" "(x0 + w) * s + (y0 + h) * c = Y + C + D"
    by (simp_all add: Y_def C_def D_def algebra_simps)
  have "calculateRotatedRectangleBounds anchor rot x0 y0 w h =
     \<lparr>position =
        \<lparr>px = min X (min (X + A) (min (X + B) (X + A + B))) + px anchor,
         py = min Y (min (Y + C) (min (Y + D) (Y + C + D))) + py anchor\<rparr>,
      bsize =
        \<lparr>width = max X (max (X + A) (max (X + B) (X + A + B)))
           - min X (min (X + A) (min (X + B) (X + A + B))),
         height = max Y (max (Y + C) (max (Y + D) (Y + C + D)))
           - min Y (min (Y + C) (min (Y + D) (Y + C + D)))\<rparr>\<rparr>"
    unfolding calculateRotatedRectangleBounds_def rotateBounds_def enclose_def corners_def
      rotatePoint_def Let_def c_def[symmetric] s_def[symmetric]
    by (simp add: x y)
  also have "\<dots> =
     \<lparr>position =
        \<lparr>px = px anchor + X + min 0 A + min 0 B, py = py anchor + Y + min 0 C + min 0 D\<rparr>,
      bsize =
        \<lparr>width = max 0 A + max 0 B - min 0 A - min 0 B,
         height = max 0 C + max 0 D - min 0 C - min 0 D\<rparr>\<rparr>"
    unfolding min_of_corners max_of_corners by simp
  finally show ?thesis
    unfolding X_def A_def B_def Y_def C_def D_def .
qed

lemma calculateRotatedRectangleBounds_envelope:
  "isEnvelopeOf (calculateRotatedRectangleBounds anchor rot x0 y0 w h)
     (rotatedRectangle anchor rot x0 y0 w h)"
proof -
  define c s where "c = cos (rot * pi / 180)" and "s = sin (rot * pi / 180)"
  define X A B where "X = px anchor + (x0 * c - y0 * s)" and "A = w * c" and "B = - (h * s)"
  define Y C D where "Y = py anchor + (x0 * s + y0 * c)" and "C = w * s" and "D = h * c"
  define q where "q u v = \<lparr>px = px anchor + ((x0 + u * w) * c - (y0 + v * h) * s),
       py = py anchor + ((x0 + u * w) * s + (y0 + v * h) * c)\<rparr>" for u v :: real
  define box where "box = calculateRotatedRectangleBounds anchor rot x0 y0 w h"
  define lo_x hi_x lo_y hi_y where "lo_x = min 0 A + min 0 B" and "hi_x = max 0 A + max 0 B"
    and "lo_y = min 0 C + min 0 D" and "hi_y = max 0 C + max 0 D"
  have region: "rotatedRectangle anchor rot x0 y0 w h
      = {z. \<exists>u v. 0 \<le> u \<and> u \<le> 1 \<and> 0 \<le> v \<and> v \<le> 1 \<and> z = q u v}"
    by (simp add: rotatedRectangle_def q_def c_def s_def)
  have qx: "px (q u v) = X + (u * A + v * B)" and qy: "py (q u v) = Y + (u * C + v * D)" for u v
    by (simp_all add: q_def X_def A_def B_def Y_def C_def D_def algebra_simps)
  have box: "box = \<lparr>position = \<lparr>px = X + lo_x, py = Y + lo_y\<rparr>,
      bsize = \<lparr>width = hi_x - lo_x, height = hi_y - lo_y\<rparr>\<rparr>"
    unfolding box_def lo_x_def hi_x_def lo_y_def hi_y_def X_def A_def B_def Y_def C_def D_def
      c_def s_def
    by (simp add: calculateRotatedRectangleBounds_explicit)
  have bx: "px (position box) = X + lo_x" and bw: "width (bsize box) = hi_x - lo_x"
    and by': "py (position box) = Y + lo_y"
    and bh: "height (bsize box) = hi_y - lo_y"
    by (simp_all add: box)
  have inside_x: "lo_x \<le> u * A + v * B \<and> u * A + v * B \<le> hi_x"
    and inside_y: "lo_y \<le> u * C + v * D \<and> u * C + v * D \<le> hi_y"
    if "0 \<le> u" "u \<le> 1" "0 \<le> v" "v \<le> 1" for u v
    unfolding lo_x_def hi_x_def lo_y_def hi_y_def
    using scaled_between[OF that(1,2), of A] scaled_between[OF that(3,4), of B]
      scaled_between[OF that(1,2), of C] scaled_between[OF that(3,4), of D]
    by (simp_all add: add_mono)
  have all: "\<forall>z \<in> rotatedRectangle anchor rot x0 y0 w h.
      px (position box) \<le> px z \<and> px z \<le> px (position box) + width (bsize box)
      \<and> py (position box) \<le> py z \<and> py z \<le> py (position box) + height (bsize box)"
  proof
    fix z assume "z \<in> rotatedRectangle anchor rot x0 y0 w h"
    then obtain u v where uv: "0 \<le> u" "u \<le> 1" "0 \<le> v" "v \<le> 1" and z: "z = q u v"
      unfolding region by blast
    from inside_x[OF uv] inside_y[OF uv]
    show "px (position box) \<le> px z \<and> px z \<le> px (position box) + width (bsize box)
      \<and> py (position box) \<le> py z \<and> py z \<le> py (position box) + height (bsize box)"
      unfolding bx bw by' bh z qx qy by simp
  qed
  have member: "q u v \<in> rotatedRectangle anchor rot x0 y0 w h"
    if "0 \<le> u" "u \<le> 1" "0 \<le> v" "v \<le> 1" for u v
    unfolding region using that by blast
  have left: "\<exists>z \<in> rotatedRectangle anchor rot x0 y0 w h. px z = px (position box)"
  proof -
    obtain u v where uv: "0 \<le> u" "u \<le> 1" "0 \<le> v" "v \<le> 1"
      and eq: "u * A + v * B = min 0 A + min 0 B"
      by (rule attained_min)
    from eq have "px (q u v) = px (position box)" by (simp add: qx bx lo_x_def)
    with member[OF uv] show ?thesis by blast
  qed
  have right: "\<exists>z \<in> rotatedRectangle anchor rot x0 y0 w h.
      px z = px (position box) + width (bsize box)"
  proof -
    obtain u v where uv: "0 \<le> u" "u \<le> 1" "0 \<le> v" "v \<le> 1"
      and eq: "u * A + v * B = max 0 A + max 0 B"
      by (rule attained_max)
    from eq have "px (q u v) = px (position box) + width (bsize box)"
      by (simp add: qx bx bw hi_x_def)
    with member[OF uv] show ?thesis by blast
  qed
  have top: "\<exists>z \<in> rotatedRectangle anchor rot x0 y0 w h. py z = py (position box)"
  proof -
    obtain u v where uv: "0 \<le> u" "u \<le> 1" "0 \<le> v" "v \<le> 1"
      and eq: "u * C + v * D = min 0 C + min 0 D"
      by (rule attained_min)
    from eq have "py (q u v) = py (position box)" by (simp add: qy by' lo_y_def)
    with member[OF uv] show ?thesis by blast
  qed
  have bottom: "\<exists>z \<in> rotatedRectangle anchor rot x0 y0 w h.
      py z = py (position box) + height (bsize box)"
  proof -
    obtain u v where uv: "0 \<le> u" "u \<le> 1" "0 \<le> v" "v \<le> 1"
      and eq: "u * C + v * D = max 0 C + max 0 D"
      by (rule attained_max)
    from eq have "py (q u v) = py (position box) + height (bsize box)"
      by (simp add: qy by' bh hi_y_def)
    with member[OF uv] show ?thesis by blast
  qed
  from all left right top bottom show ?thesis
    unfolding isEnvelopeOf_def box_def by blast
qed

text \<open>
  C9. The bounding box of a marker is the axis-aligned envelope of the
  \<open>width \<times> height\<close> rectangle whose origin is offset by \<open>(-width\<cdot>refX, -height\<cdot>refY)\<close> from
  the anchor, rotated by the rotation of the marker about the anchor, in world
  coordinates (translated by the position of the anchor); the bounds of a shape are the
  envelope of the rectangle offset by \<open>(dx, dy)\<close> and rotated about the resolved position.
\<close>

theorem marker_and_shape_bounds_are_envelopes:
  "isEnvelopeOf (calculateMarkerBounds markerLayout)
     (rotatedRectangle (markerPosition markerLayout) (markerRotation markerLayout)
        (- width (marker markerLayout) * refX (marker markerLayout))
        (- height (marker markerLayout) * refY (marker markerLayout))
        (width (marker markerLayout)) (height (marker markerLayout)))
   \<and> isEnvelopeOf (calculateCanvasElementBounds layoutElement element)
     (rotatedRectangle (layoutElement element) (rotation element) (dx element) (dy element)
        (width element) (height element))"
  by (simp add: calculateMarkerBounds_def calculateCanvasElementBounds_def Let_def
      calculateRotatedRectangleBounds_envelope)

theorem marker_and_shape_bounds_are_envelopes_witness:
  "calculateMarkerBounds example_marker
     = \<lparr>position = \<lparr>px = 9, py = 8\<rparr>, bsize = \<lparr>width = 2, height = 4\<rparr>\<rparr>
   \<and> isEnvelopeOf \<lparr>position = \<lparr>px = 9, py = 8\<rparr>, bsize = \<lparr>width = 2, height = 4\<rparr>\<rparr>
        (rotatedRectangle \<lparr>px = 10, py = 10\<rparr> 90 (- 2) (- 1) 4 2)
   \<and> calculateCanvasElementBounds (\<lambda>el. \<lparr>px = 10, py = 10\<rparr>) example_shape
     = \<lparr>position = \<lparr>px = 11, py = 12\<rparr>, bsize = \<lparr>width = 4, height = 2\<rparr>\<rparr>
   \<and> isEnvelopeOf \<lparr>position = \<lparr>px = 11, py = 12\<rparr>, bsize = \<lparr>width = 4, height = 2\<rparr>\<rparr>
        (rotatedRectangle \<lparr>px = 10, py = 10\<rparr> 0 1 2 4 2)"
proof -
  have m: "calculateMarkerBounds example_marker
     = \<lparr>position = \<lparr>px = 9, py = 8\<rparr>, bsize = \<lparr>width = 2, height = 4\<rparr>\<rparr>"
    by (simp add: calculateMarkerBounds_def example_marker_def
        calculateRotatedRectangleBounds_explicit)
  have e: "calculateCanvasElementBounds (\<lambda>el. \<lparr>px = 10, py = 10\<rparr>) example_shape
     = \<lparr>position = \<lparr>px = 11, py = 12\<rparr>, bsize = \<lparr>width = 4, height = 2\<rparr>\<rparr>"
    by (simp add: calculateCanvasElementBounds_def example_shape_def
        calculateRotatedRectangleBounds_explicit)
  from marker_and_shape_bounds_are_envelopes[of example_marker "\<lambda>el. \<lparr>px = 10, py = 10\<rparr>" example_shape]
  show ?thesis
    unfolding m e by (simp add: example_marker_def example_shape_def)
qed

end
